theory Spec2Isabelle
  imports Complex_Main "HOL-Library.Word" "HOL-Library.Log_Nat"
begin

unbundle bit_operations_syntax

section \<open>Common data\<close>

text \<open>
  The program is C++ on top of OpenCV. Its own code (the files under \<open>lib\<close>,
  \<open>SvmTrainer\<close> and \<open>DigitClassifier\<close>) is embedded function by function. A call into
  OpenCV is embedded by what the OpenCV reference documents for it; where the outcome of
  a call is numeric learning or interpolation, the computed numbers are a parameter of
  the embedding and only the shape of the result is fixed.

  A \<open>cv::Exception\<close> thrown inside an OpenCV call is the error value \<open>CvException\<close>;
  a read outside the data of a matrix (undefined behaviour in C++) is \<open>OutOfRange\<close>.
  The program has no error value of its own: its functions report failure by returning
  \<open>false\<close>.
\<close>

datatype error = CvException | OutOfRange

type_synonym byte = "8 word"

text \<open>The files of the machine: a path that is absent cannot be opened.\<close>

type_synonym filesystem = "string \<rightharpoonup> byte list"

section \<open>Svm (lib/Svm.cpp): persistence\<close>

text \<open>
  \<open>class Svm\<close> holds one field, \<open>m_svm\<close>, the OpenCV model. The type of models is a
  parameter.
\<close>

record 'm Svm =
  m_svm :: 'm

text \<open>
  \<open>Svm::Load\<close>: the \<open>exists\<close> test and its early return are the program's; parsing the
  file is \<open>StatModel::load\<close>, the parameter \<open>StatModel_load\<close>.
\<close>

definition Svm_Load ::
  "(byte list \<Rightarrow> error + 'm) \<Rightarrow> filesystem \<Rightarrow> string \<Rightarrow> ('m, 'z) Svm_scheme
     \<Rightarrow> error + (bool \<times> ('m, 'z) Svm_scheme)" where
  "Svm_Load StatModel_load fs filename s =
     (case fs filename of
        None \<Rightarrow> Inr (False, s)
      | Some content \<Rightarrow>
          (case StatModel_load content of
             Inl e \<Rightarrow> Inl e
           | Inr m \<Rightarrow> Inr (True, s\<lparr>m_svm := m\<rparr>)))"

text \<open>
  \<open>Svm::Save\<close>: the emptiness test and its early return are the program's; writing the
  file is \<open>m_svm->save\<close>, the parameter \<open>svm_save\<close>, which returns the file system after
  the write. The method is \<open>const\<close>; the object is returned as well so that "unchanged"
  can be stated.
\<close>

definition Svm_Save ::
  "('m \<Rightarrow> string \<Rightarrow> filesystem \<Rightarrow> error + filesystem) \<Rightarrow> ('m, 'z) Svm_scheme \<Rightarrow> string
     \<Rightarrow> filesystem \<Rightarrow> error + (bool \<times> ('m, 'z) Svm_scheme \<times> filesystem)" where
  "Svm_Save svm_save s filename fs =
     (if filename = [] then Inr (False, s, fs)
      else (case svm_save (m_svm s) filename fs of
              Inl e \<Rightarrow> Inl e
            | Inr fs' \<Rightarrow> Inr (True, s, fs')))"

section \<open>Matrices and streams\<close>

text \<open>
  \<open>cv::Mat\<close> of type \<open>CV_8UC1\<close>: \<open>rows\<close>, \<open>cols\<close> and the pixel bytes, row after row.
\<close>

record Mat =
  rows :: nat
  cols :: nat
  data :: "byte list"

text \<open>
  \<open>Mat(rows, cols, CV_8UC1)\<close> called with \<open>unsigned int\<close> arguments: they convert to
  \<open>int\<close>, a negative size is refused by OpenCV with an exception. The new buffer is not
  initialised: \<open>mem\<close> is what the memory holds. (OpenCV also raises when the machine
  cannot provide the buffer. That depends on the machine and is not modelled; the results
  on the loaders state that a matrix is created only where its size is bounded by
  the bytes of the file, or under the condition that the loader returns.)
\<close>

definition Mat_create :: "32 word \<Rightarrow> 32 word \<Rightarrow> (nat \<Rightarrow> byte) \<Rightarrow> error + Mat" where
  "Mat_create r c mem =
     (if sint r < 0 \<or> sint c < 0 then Inl CvException
      else Inr \<lparr>rows = unat r, cols = unat c, data = map mem [0..<unat r * unat c]\<rparr>)"

text \<open>
  \<open>threshold(src, dst, thresh, maxval, THRESH_BINARY)\<close> on 8-bit pixels: OpenCV documents
  \<open>dst(x,y) = maxval if src(x,y) > thresh, 0 otherwise\<close>.
\<close>

definition THRESH_BINARY :: "byte \<Rightarrow> byte \<Rightarrow> byte \<Rightarrow> byte" where
  "THRESH_BINARY thresh maxval p = (if thresh < p then maxval else 0)"

definition threshold :: "Mat \<Rightarrow> byte \<Rightarrow> byte \<Rightarrow> Mat" where
  "threshold src thresh maxval = src\<lparr>data := map (THRESH_BINARY thresh maxval) (data src)\<rparr>"

text \<open>
  \<open>std::ifstream\<close> opened in binary mode: the bytes not read yet, and the fail bit. The
  stream never throws (its exception mask is the default). Once a read has hit the end of
  the file the fail bit is set and every later read does nothing.
\<close>

record ifstream =
  rest :: "byte list"
  failed :: bool

text \<open>\<open>file.get(ch)\<close>: when no byte can be read, \<open>ch\<close> keeps its value.\<close>

definition ifstream_get :: "ifstream \<Rightarrow> byte \<Rightarrow> byte \<times> ifstream" where
  "ifstream_get file ch =
     (if failed file then (ch, file)
      else (case rest file of
              [] \<Rightarrow> (ch, file\<lparr>failed := True\<rparr>)
            | b # bs \<Rightarrow> (b, file\<lparr>rest := bs\<rparr>)))"

text \<open>
  \<open>file.read(buf, n)\<close>: the bytes read overwrite the front of \<open>buf\<close>; when fewer than
  \<open>n\<close> are left they are all stored, the remainder of \<open>buf\<close> keeps its content and the
  fail bit is set.
\<close>

definition ifstream_read :: "ifstream \<Rightarrow> byte list \<Rightarrow> nat \<Rightarrow> byte list \<times> ifstream" where
  "ifstream_read file buf n =
     (if failed file then (buf, file)
      else if n \<le> length (rest file)
      then (take n (rest file) @ drop n buf, file\<lparr>rest := drop n (rest file)\<rparr>)
      else (rest file @ drop (length (rest file)) buf, file\<lparr>rest := [], failed := True\<rparr>))"

section \<open>Dataset loader (SvmTrainer/SvmTrainer.cpp)\<close>

text \<open>
  \<open>ReadInt\<close>: the loop runs \<open>i = 3, 2, 1, 0\<close>; the equation for \<open>Suc i\<close> is the iteration
  with loop variable \<open>i\<close>. \<open>ch & 0xFF\<close> is the byte read as unsigned, shifted and or-ed
  into the 32-bit \<open>value\<close>.
\<close>

fun ReadInt_loop :: "nat \<Rightarrow> byte \<Rightarrow> 32 word \<Rightarrow> ifstream \<Rightarrow> 32 word \<times> ifstream" where
  "ReadInt_loop 0 ch val file = (val, file)"
| "ReadInt_loop (Suc i) ch val file =
     (let (ch', file') = ifstream_get file ch
      in ReadInt_loop i ch' (val OR push_bit (8 * i) (ucast ch')) file')"

definition ReadInt :: "ifstream \<Rightarrow> 32 word \<times> ifstream" where
  "ReadInt file = ReadInt_loop 4 0 0 file"

text \<open>
  The image loop of \<open>ReadMnistImageFile\<close>. The first counter is the number of iterations
  left (\<open>numItems - i\<close>), the second is \<open>i\<close>; \<open>mem i\<close> is the memory the \<open>i\<close>-th matrix is
  allocated in. \<open>imageSize\<close> is an \<open>unsigned int\<close> product and wraps.
\<close>

fun ReadMnistImageFile_loop ::
  "(nat \<Rightarrow> nat \<Rightarrow> byte) \<Rightarrow> 32 word \<Rightarrow> 32 word \<Rightarrow> nat \<Rightarrow> nat \<Rightarrow> ifstream \<Rightarrow> Mat list
     \<Rightarrow> error + (ifstream \<times> Mat list)" where
  "ReadMnistImageFile_loop mem numRows numColumns 0 i file images = Inr (file, images)"
| "ReadMnistImageFile_loop mem numRows numColumns (Suc k) i file images =
     (case Mat_create numRows numColumns (mem i) of
        Inl e \<Rightarrow> Inl e
      | Inr img \<Rightarrow>
          (let imageSize = numRows * numColumns;
               (buf, file') = ifstream_read file (data img) (unat imageSize);
               img' = threshold (img\<lparr>data := buf\<rparr>) 90 255
           in ReadMnistImageFile_loop mem numRows numColumns k (Suc i) file' (images @ [img'])))"

text \<open>
  \<open>ReadMnistImageFile\<close>: \<open>false\<close> when the file cannot be opened, otherwise the header,
  the images, and \<open>true\<close>. The state of the stream is never tested. (The display of
  the first images, compiled in debug builds only, is left out.)
\<close>

definition ReadMnistImageFile ::
  "filesystem \<Rightarrow> (nat \<Rightarrow> nat \<Rightarrow> byte) \<Rightarrow> string \<Rightarrow> Mat list \<Rightarrow> error + (bool \<times> Mat list)" where
  "ReadMnistImageFile fs mem filename images =
     (case fs filename of
        None \<Rightarrow> Inr (False, images)
      | Some content \<Rightarrow>
          (let file = \<lparr>rest = content, failed = False\<rparr>;
               (magicNumber, file) = ReadInt file;
               (numItems, file) = ReadInt file;
               (numRows, file) = ReadInt file;
               (numColumns, file) = ReadInt file
           in (case ReadMnistImageFile_loop mem numRows numColumns (unat numItems) 0 file images of
                 Inl e \<Rightarrow> Inl e
               | Inr (file, images') \<Rightarrow> Inr (True, images'))))"

text \<open>
  \<open>LoadMnistLabelFile\<close>: \<open>labels.create(numItems, 1, CV_8UC1)\<close>, then one byte read into
  each row. What \<open>labels\<close> held before does not matter to the result beyond the content
  of its buffer, which is \<open>mem\<close>.
\<close>

fun LoadMnistLabelFile_loop :: "nat \<Rightarrow> nat \<Rightarrow> ifstream \<Rightarrow> Mat \<Rightarrow> ifstream \<times> Mat" where
  "LoadMnistLabelFile_loop 0 i file labels = (file, labels)"
| "LoadMnistLabelFile_loop (Suc k) i file labels =
     (let (buf, file') = ifstream_read file (take 1 (drop i (data labels))) 1
      in LoadMnistLabelFile_loop k (Suc i) file'
           (labels\<lparr>data := take i (data labels) @ buf @ drop (Suc i) (data labels)\<rparr>))"


text \<open>
  The header fields as the two loaders read them: the same four (two) calls of \<open>ReadInt\<close>
  on the freshly opened file, with the magic number dropped. They are used to state what
  a header declares.
\<close>

definition image_header :: "byte list \<Rightarrow> 32 word \<times> 32 word \<times> 32 word" where
  "image_header content =
     (let file = \<lparr>rest = content, failed = False\<rparr>;
          (magicNumber, file) = ReadInt file;
          (numItems, file) = ReadInt file;
          (numRows, file) = ReadInt file;
          (numColumns, file) = ReadInt file
      in (numItems, numRows, numColumns))"


section \<open>Numbers\<close>

text \<open>
  A value of type \<open>float\<close> or \<open>double\<close> that comes out of OpenCV (a prediction) is a real
  number here. \<open>static_cast<int>\<close> of a floating-point value drops the fraction, towards
  zero.
\<close>

definition static_cast_int :: "real \<Rightarrow> int" where
  "static_cast_int r = (if 0 \<le> r then \<lfloor>r\<rfloor> else \<lceil>r\<rceil>)"

text \<open>
  The arithmetic the program itself does in \<open>float\<close> (the rate of \<open>Svm::Test\<close>) is
  IEEE 754 binary32 arithmetic: a \<open>float\<close> is a finite real with a 24-bit significand, an
  infinity or NaN, and every operation returns the exact result rounded to the nearest
  such value, ties to the even significand.

  \<open>floor_log2 a\<close> is the exponent \<open>e\<close> with \<open>2^e \<le> a < 2^(e+1)\<close>, for \<open>0 < a\<close>;
  \<open>round_half_even\<close> is the nearest integer, the even one of two; \<open>binary32 r\<close> rounds
  \<open>r\<close> in units of \<open>2^(e-23)\<close>, where \<open>e\<close> is at least -126 (below that exponent the
  values are subnormal), and overflows to an infinity from \<open>2^128\<close> on.
\<close>

datatype float = Finite real | PlusInfinity | MinusInfinity | NaN

definition floor_log2 :: "real \<Rightarrow> int" where
  "floor_log2 a = (if 1 \<le> a then bitlen \<lfloor>a\<rfloor> - 1 else - bitlen (\<lceil>1 / a\<rceil> - 1))"

definition round_half_even :: "real \<Rightarrow> int" where
  "round_half_even r =
     (let f = \<lfloor>r\<rfloor>; d = r - of_int f
      in if d < 1 / 2 then f else if 1 / 2 < d then f + 1 else if even f then f else f + 1)"

definition binary32 :: "real \<Rightarrow> float" where
  "binary32 r =
     (if r = 0 then Finite 0
      else (let e = max (floor_log2 \<bar>r\<bar>) (- 126);
                ulp = (if 23 \<le> e then 2 ^ nat (e - 23) else 1 / 2 ^ nat (23 - e));
                m = of_int (round_half_even (\<bar>r\<bar> / ulp)) * ulp
            in if 2 ^ 128 \<le> m then (if 0 < r then PlusInfinity else MinusInfinity)
               else Finite (sgn r * m)))"

text \<open>The conversion of an \<open>int\<close> to \<open>float\<close>.\<close>

definition int_to_float :: "int \<Rightarrow> float" where
  "int_to_float n = binary32 (of_int n)"

text \<open>
  Product and quotient of two \<open>float\<close>s, with the IEEE results for NaN, the infinities
  and a zero divisor. (A negative zero is not represented: the zeros of this program are
  conversions of the \<open>int\<close> 0.)
\<close>

fun float_times :: "float \<Rightarrow> float \<Rightarrow> float" where
  "float_times (Finite a) (Finite b) = binary32 (a * b)"
| "float_times NaN v = NaN"
| "float_times u NaN = NaN"
| "float_times (Finite a) v =
     (if a = 0 then NaN else if (0 < a) = (v = PlusInfinity) then PlusInfinity else MinusInfinity)"
| "float_times u (Finite b) =
     (if b = 0 then NaN else if (0 < b) = (u = PlusInfinity) then PlusInfinity else MinusInfinity)"
| "float_times u v = (if u = v then PlusInfinity else MinusInfinity)"

fun float_divide :: "float \<Rightarrow> float \<Rightarrow> float" where
  "float_divide (Finite a) (Finite b) =
     (if b = 0 then (if a = 0 then NaN else if 0 < a then PlusInfinity else MinusInfinity)
      else binary32 (a / b))"
| "float_divide NaN v = NaN"
| "float_divide u NaN = NaN"
| "float_divide (Finite a) v = Finite 0"
| "float_divide u (Finite b) =
     (if (0 \<le> b) = (u = PlusInfinity) then PlusInfinity else MinusInfinity)"
| "float_divide u v = NaN"

section \<open>HogSvm (lib/HogSvm.cpp) and Svm: features, prediction, training, testing\<close>

record Size =
  width :: int
  height :: int

record HOGDescriptor =
  winSize :: Size
  blockSize :: Size
  blockStride :: Size
  cellSize :: Size
  nbins :: int

text \<open>\<open>class HogSvm : public Svm\<close> adds the descriptor \<open>m_hog\<close>.\<close>

record 'm HogSvm = "'m Svm" +
  m_hog :: HOGDescriptor

text \<open>
  The constructor: \<open>m_hog(Size(28, 28), Size(4, 4), Size(2, 2), Size(4, 4), 9)\<close>, and
  \<open>m_svm = SVM::create()\<close>, the untrained model. No function of the program changes
  \<open>m_hog\<close>, and training and loading replace \<open>m_svm\<close> only: \<open>HogSvm_new m\<close>, for
  any model \<open>m\<close>, is every state a \<open>HogSvm\<close> object can be in.
\<close>

definition HogSvm_new :: "'m \<Rightarrow> 'm HogSvm" where
  "HogSvm_new m =
     \<lparr>m_svm = m,
      m_hog = \<lparr>winSize = \<lparr>width = 28, height = 28\<rparr>,
               blockSize = \<lparr>width = 4, height = 4\<rparr>,
               blockStride = \<lparr>width = 2, height = 2\<rparr>,
               cellSize = \<lparr>width = 4, height = 4\<rparr>,
               nbins = 9\<rparr>\<rparr>"

text \<open>
  \<open>HOGDescriptor::getDescriptorSize\<close>, as OpenCV defines it: two divisibility
  assertions, then the product of the bin count, the cells per block and the block
  positions per window. (All sizes are positive in this program, where C++ division and
  \<open>div\<close> agree.)
\<close>

definition getDescriptorSize :: "HOGDescriptor \<Rightarrow> error + nat" where
  "getDescriptorSize h =
     (if Size.width (blockSize h) mod Size.width (cellSize h) = 0
         \<and> Size.height (blockSize h) mod Size.height (cellSize h) = 0
         \<and> (Size.width (winSize h) - Size.width (blockSize h)) mod Size.width (blockStride h) = 0
         \<and> (Size.height (winSize h) - Size.height (blockSize h)) mod Size.height (blockStride h) = 0
      then Inr (nat (nbins h
             * (Size.width (blockSize h) div Size.width (cellSize h))
             * (Size.height (blockSize h) div Size.height (cellSize h))
             * ((Size.width (winSize h) - Size.width (blockSize h)) div Size.width (blockStride h) + 1)
             * ((Size.height (winSize h) - Size.height (blockSize h)) div Size.height (blockStride h) + 1)))
      else Inl CvException)"

text \<open>
  \<open>resize(src, dst, dsize)\<close>: OpenCV refuses an empty source; the result has the size
  \<open>dsize\<close>. Its pixels are interpolated: \<open>interpolate src dsize k\<close> is the \<open>k\<close>-th of them.
\<close>

definition resize :: "(Mat \<Rightarrow> Size \<Rightarrow> nat \<Rightarrow> byte) \<Rightarrow> Mat \<Rightarrow> Size \<Rightarrow> error + Mat" where
  "resize interpolate src dsize =
     (if rows src = 0 \<or> cols src = 0 then Inl CvException
      else Inr \<lparr>rows = nat (Size.height dsize), cols = nat (Size.width dsize),
                data = map (interpolate src dsize)
                         [0..<nat (Size.height dsize) * nat (Size.width dsize)]\<rparr>)"

text \<open>
  \<open>HOGDescriptor::compute(img, descriptors)\<close> with the default window stride (the cell
  size) and no padding: the vector is resized to one descriptor for every window
  position in the image; \<open>hog_value img k\<close> is the \<open>k\<close>-th number computed.
\<close>

definition windowsInImage :: "HOGDescriptor \<Rightarrow> Mat \<Rightarrow> nat" where
  "windowsInImage h img =
     nat ((int (cols img) - Size.width (winSize h)) div Size.width (cellSize h) + 1)
     * nat ((int (rows img) - Size.height (winSize h)) div Size.height (cellSize h) + 1)"

definition HOGDescriptor_compute ::
  "(Mat \<Rightarrow> nat \<Rightarrow> real) \<Rightarrow> HOGDescriptor \<Rightarrow> Mat \<Rightarrow> error + real list" where
  "HOGDescriptor_compute hog_value h img =
     (case getDescriptorSize h of
        Inl e \<Rightarrow> Inl e
      | Inr dsize \<Rightarrow> Inr (map (hog_value img) [0..<dsize * windowsInImage h img]))"

text \<open>
  A matrix of \<open>float\<close>s is the list of its rows. \<open>features.push_back(row)\<close> appends a
  row; OpenCV refuses a row whose length differs from the rows already there.
\<close>

definition push_back :: "real list list \<Rightarrow> real list \<Rightarrow> error + real list list" where
  "push_back features row =
     (case features of
        [] \<Rightarrow> Inr [row]
      | r # rs \<Rightarrow> if length r = length row then Inr (features @ [row]) else Inl CvException)"

text \<open>
  \<open>HogSvm::ExtractFeatures(image, features)\<close>. The vector \<open>descriptors(numFeatures)\<close>
  is overwritten by \<open>compute\<close>.
\<close>

definition ExtractFeatures ::
  "(Mat \<Rightarrow> Size \<Rightarrow> nat \<Rightarrow> byte) \<Rightarrow> (Mat \<Rightarrow> nat \<Rightarrow> real) \<Rightarrow> ('m, 'z) HogSvm_scheme \<Rightarrow> Mat
     \<Rightarrow> real list list \<Rightarrow> error + (bool \<times> real list list)" where
  "ExtractFeatures interpolate hog_value s img features =
     (case getDescriptorSize (m_hog s) of
        Inl e \<Rightarrow> Inl e
      | Inr numFeatures \<Rightarrow>
          (case resize interpolate img (winSize (m_hog s)) of
             Inl e \<Rightarrow> Inl e
           | Inr hogImage \<Rightarrow>
               (case HOGDescriptor_compute hog_value (m_hog s) hogImage of
                  Inl e \<Rightarrow> Inl e
                | Inr descriptors \<Rightarrow>
                    (case push_back features descriptors of
                       Inl e \<Rightarrow> Inl e
                     | Inr features' \<Rightarrow> Inr (True, features')))))"

text \<open>\<open>HogSvm::ExtractFeatures(images, features)\<close>: the loop over the vector.\<close>

fun ExtractFeatures_images ::
  "(Mat \<Rightarrow> Size \<Rightarrow> nat \<Rightarrow> byte) \<Rightarrow> (Mat \<Rightarrow> nat \<Rightarrow> real) \<Rightarrow> ('m, 'z) HogSvm_scheme \<Rightarrow> Mat list
     \<Rightarrow> real list list \<Rightarrow> error + (bool \<times> real list list)" where
  "ExtractFeatures_images interpolate hog_value s [] features = Inr (True, features)"
| "ExtractFeatures_images interpolate hog_value s (img # images) features =
     (case ExtractFeatures interpolate hog_value s img features of
        Inl e \<Rightarrow> Inl e
      | Inr (ok, features') \<Rightarrow> ExtractFeatures_images interpolate hog_value s images features')"

text \<open>
  \<open>Svm::Predict\<close>: \<open>m_svm->predict(input)\<close> answers for the first row of its input;
  \<open>svm_predict\<close> is the decision of the model on one feature vector. (It is a total
  function: a model that OpenCV would refuse to predict with, such as one never trained,
  is outside the embedding.)
\<close>

definition Svm_Predict ::
  "('m \<Rightarrow> real list \<Rightarrow> real) \<Rightarrow> ('m, 'z) Svm_scheme \<Rightarrow> real list list \<Rightarrow> error + real" where
  "Svm_Predict svm_predict s features =
     (case features of
        [] \<Rightarrow> Inl CvException
      | row # _ \<Rightarrow> Inr (svm_predict (m_svm s) row))"

definition HogSvm_Predict ::
  "(Mat \<Rightarrow> Size \<Rightarrow> nat \<Rightarrow> byte) \<Rightarrow> (Mat \<Rightarrow> nat \<Rightarrow> real) \<Rightarrow> ('m \<Rightarrow> real list \<Rightarrow> real)
     \<Rightarrow> ('m, 'z) HogSvm_scheme \<Rightarrow> Mat \<Rightarrow> error + real" where
  "HogSvm_Predict interpolate hog_value svm_predict s img =
     (case ExtractFeatures interpolate hog_value s img [] of
        Inl e \<Rightarrow> Inl e
      | Inr (ok, features) \<Rightarrow> Svm_Predict svm_predict s features)"

text \<open>
  \<open>Svm::Train\<close> and \<open>HogSvm::Train\<close>: the fitting is \<open>m_svm->train\<close>, the parameter
  \<open>svm_train\<close>, which returns the fitted model or throws. Both functions return \<open>true\<close>
  on every path of their own. The labels are one byte a row; \<open>convertTo(CV_32SC1)\<close>
  makes them \<open>int\<close>s.
\<close>

definition Svm_Train ::
  "('m \<Rightarrow> real list list \<Rightarrow> int list \<Rightarrow> error + 'm) \<Rightarrow> ('m, 'z) Svm_scheme \<Rightarrow> real list list
     \<Rightarrow> byte list \<Rightarrow> error + (bool \<times> ('m, 'z) Svm_scheme)" where
  "Svm_Train svm_train s features labels =
     (let svmFeatures = features; svmLabels = map uint labels
      in (case svm_train (m_svm s) svmFeatures svmLabels of
            Inl e \<Rightarrow> Inl e
          | Inr m \<Rightarrow> Inr (True, s\<lparr>m_svm := m\<rparr>)))"

definition HogSvm_Train ::
  "(Mat \<Rightarrow> Size \<Rightarrow> nat \<Rightarrow> byte) \<Rightarrow> (Mat \<Rightarrow> nat \<Rightarrow> real)
     \<Rightarrow> ('m \<Rightarrow> real list list \<Rightarrow> int list \<Rightarrow> error + 'm) \<Rightarrow> ('m, 'z) HogSvm_scheme \<Rightarrow> Mat list
     \<Rightarrow> byte list \<Rightarrow> error + (bool \<times> ('m, 'z) HogSvm_scheme)" where
  "HogSvm_Train interpolate hog_value svm_train s images labels =
     (case ExtractFeatures_images interpolate hog_value s images [] of
        Inl e \<Rightarrow> Inl e
      | Inr (ok, features) \<Rightarrow>
          (case Svm_Train svm_train s features labels of
             Inl e \<Rightarrow> Inl e
           | Inr (ok', s') \<Rightarrow> Inr (True, s')))"

text \<open>
  \<open>Svm::Test\<close>. The loop runs over the rows of the features, \<open>i\<close> is the row index;
  \<open>svmLabels.at<int>(i, 0)\<close> beyond the last label is a read out of range. The result
  is \<open>(100.0f * errors) / svmLabels.rows\<close>: both \<open>int\<close>s are converted to \<open>float\<close>,
  the product and the quotient are \<open>float\<close> operations.
\<close>

fun Svm_Test_loop ::
  "('m \<Rightarrow> real list \<Rightarrow> real) \<Rightarrow> 'm \<Rightarrow> real list list \<Rightarrow> int list \<Rightarrow> nat \<Rightarrow> nat \<Rightarrow> error + nat" where
  "Svm_Test_loop svm_predict m [] svmLabels i errors = Inr errors"
| "Svm_Test_loop svm_predict m (row # svmFeatures) svmLabels i errors =
     (let result = static_cast_int (svm_predict m row)
      in if i < length svmLabels
         then Svm_Test_loop svm_predict m svmFeatures svmLabels (Suc i)
                (if result \<noteq> svmLabels ! i then Suc errors else errors)
         else Inl OutOfRange)"

definition Svm_Test ::
  "('m \<Rightarrow> real list \<Rightarrow> real) \<Rightarrow> ('m, 'z) Svm_scheme \<Rightarrow> real list list \<Rightarrow> byte list
     \<Rightarrow> error + float" where
  "Svm_Test svm_predict s features labels =
     (let svmFeatures = features; svmLabels = map uint labels
      in (case Svm_Test_loop svm_predict (m_svm s) svmFeatures svmLabels 0 0 of
            Inl e \<Rightarrow> Inl e
          | Inr errors \<Rightarrow>
              Inr (float_divide (float_times (Finite 100) (int_to_float (int errors)))
                     (int_to_float (int (length svmLabels))))))"

definition HogSvm_Test ::
  "(Mat \<Rightarrow> Size \<Rightarrow> nat \<Rightarrow> byte) \<Rightarrow> (Mat \<Rightarrow> nat \<Rightarrow> real) \<Rightarrow> ('m \<Rightarrow> real list \<Rightarrow> real)
     \<Rightarrow> ('m, 'z) HogSvm_scheme \<Rightarrow> Mat list \<Rightarrow> byte list \<Rightarrow> error + float" where
  "HogSvm_Test interpolate hog_value svm_predict s images labels =
     (case ExtractFeatures_images interpolate hog_value s images [] of
        Inl e \<Rightarrow> Inl e
      | Inr (ok, features) \<Rightarrow> Svm_Test svm_predict s features labels)"

section \<open>Frame processing (DigitClassifier/RealtimeDigitClassifier.cpp)\<close>

record Rect =
  x :: int
  y :: int
  width :: int
  height :: int

text \<open>
  \<open>frame(rect).clone()\<close>: OpenCV refuses a rectangle that is not inside the matrix;
  otherwise the result is the copy of that part, row after row.
\<close>

definition Mat_roi :: "Mat \<Rightarrow> Rect \<Rightarrow> error + Mat" where
  "Mat_roi m r =
     (if 0 \<le> x r \<and> 0 \<le> Rect.width r \<and> x r + Rect.width r \<le> int (cols m)
         \<and> 0 \<le> y r \<and> 0 \<le> Rect.height r \<and> y r + Rect.height r \<le> int (rows m)
      then Inr \<lparr>rows = nat (Rect.height r), cols = nat (Rect.width r),
                data = concat (map (\<lambda>i. take (nat (Rect.width r))
                                          (drop ((nat (y r) + i) * cols m + nat (x r)) (data m)))
                                [0..<nat (Rect.height r)])\<rparr>
      else Inl CvException)"

text \<open>
  \<open>copyMakeBorder(src, dst, top, bottom, left, right, BORDER_CONSTANT, value)\<close>:
  OpenCV refuses a negative border; otherwise \<open>top\<close> rows of \<open>value\<close>, the rows of the
  source with \<open>left\<close> and \<open>right\<close> pixels of \<open>value\<close> around each, and \<open>bottom\<close> rows of
  \<open>value\<close>.
\<close>

definition copyMakeBorder :: "Mat \<Rightarrow> int \<Rightarrow> int \<Rightarrow> int \<Rightarrow> int \<Rightarrow> byte \<Rightarrow> error + Mat" where
  "copyMakeBorder src ptop pbottom pleft pright val =
     (if 0 \<le> ptop \<and> 0 \<le> pbottom \<and> 0 \<le> pleft \<and> 0 \<le> pright
      then (let w = cols src + nat pleft + nat pright
            in Inr \<lparr>rows = rows src + nat ptop + nat pbottom, cols = w,
                     data = replicate (nat ptop * w) val
                          @ concat (map (\<lambda>i. replicate (nat pleft) val
                                             @ take (cols src) (drop (i * cols src) (data src))
                                             @ replicate (nat pright) val)
                                     [0..<rows src])
                          @ replicate (nat pbottom * w) val\<rparr>)
      else Inl CvException)"

text \<open>
  The region of interest of \<open>ProcessFrame\<close>: three quarters of the frame, centred. (The
  \<open>float\<close> products are exact for every frame below four million pixels a side.)
\<close>

definition ProcessFrame_roi :: "Mat \<Rightarrow> Rect" where
  "ProcessFrame_roi frame =
     (let size = 0.75
      in \<lparr>x = static_cast_int (real (cols frame) * (1 - size) / 2),
          y = static_cast_int (real (rows frame) * (1 - size) / 2),
          width = static_cast_int (real (cols frame) * size),
          height = static_cast_int (real (rows frame) * size)\<rparr>)"

text \<open>
  The first half of the loop body of \<open>ProcessFrame\<close> (from \<open>boundingRect\<close> to
  \<open>copyMakeBorder\<close>): \<open>r\<close> is \<open>boundingRect(contours[i])\<close>, a rectangle in the
  coordinates of the region of interest; the result is \<open>boundRect\<close> and the padded
  \<open>image\<close>. The product with the \<open>double\<close> 0.2 is a real product here; the nearest
  \<open>double\<close> to 0.2 lies above it by less than \<open>2^-56\<close>, which cannot carry a product with
  an \<open>int\<close> across an integer from below, so the truncated value is the same.
\<close>

definition ProcessFrame_region :: "Mat \<Rightarrow> Rect \<Rightarrow> Rect \<Rightarrow> error + (Rect \<times> Mat)" where
  "ProcessFrame_region frame roi r =
     (let boundRect = r\<lparr>x := x r + x roi, y := y r + y roi\<rparr>
      in (case Mat_roi frame \<lparr>x = x boundRect, y = y boundRect,
                               width = Rect.width boundRect, height = Rect.height boundRect\<rparr> of
            Inl e \<Rightarrow> Inl e
          | Inr img \<Rightarrow>
              (let hpad = static_cast_int (real_of_int (Rect.height boundRect) * 0.2);
                   wpad = static_cast_int (real_of_int (Rect.width boundRect) * 0.2)
               in (case copyMakeBorder img hpad hpad wpad wpad 0 of
                     Inl e \<Rightarrow> Inl e
                   | Inr img' \<Rightarrow> Inr (boundRect, img')))))"

text \<open>
  What a call of \<open>ProcessFrame\<close> produces: the detections (the bounding rectangle drawn
  and the digit written at it), and the images the classifier was asked about. The
  colours of the drawing are not part of it.
\<close>

record Detections =
  detections :: "(Rect \<times> int) list"
  classifier_calls :: "Mat list"

text \<open>
  The loop of \<open>ProcessFrame\<close> over the contours. \<open>detector\<close> and \<open>classifier\<close> are the
  \<open>Predict\<close> methods of the two \<open>HogSvm\<close> objects.
\<close>

fun ProcessFrame_loop ::
  "(Mat \<Rightarrow> error + real) \<Rightarrow> (Mat \<Rightarrow> error + real) \<Rightarrow> Mat \<Rightarrow> Rect \<Rightarrow> Rect list \<Rightarrow> Detections
     \<Rightarrow> error + Detections" where
  "ProcessFrame_loop classifier detector frame roi [] st = Inr st"
| "ProcessFrame_loop classifier detector frame roi (r # contours) st =
     (case ProcessFrame_region frame roi r of
        Inl e \<Rightarrow> Inl e
      | Inr (boundRect, img) \<Rightarrow>
          (case detector img of
             Inl e \<Rightarrow> Inl e
           | Inr detect \<Rightarrow>
               if 0 < detect
               then (case classifier img of
                       Inl e \<Rightarrow> Inl e
                     | Inr p \<Rightarrow>
                         ProcessFrame_loop classifier detector frame roi contours
                           (st\<lparr>detections := detections st @ [(boundRect, static_cast_int p)],
                               classifier_calls := classifier_calls st @ [img]\<rparr>))
               else ProcessFrame_loop classifier detector frame roi contours st))"

text \<open>
  \<open>ProcessFrame\<close> from the point where OpenCV has segmented the frame: \<open>frame\<close> is the
  frame after \<open>morphologyEx\<close>, \<open>boundingRects\<close> are the bounding rectangles of the
  contours \<open>findContours\<close> returned, in its order.
\<close>

definition ProcessFrame ::
  "(Mat \<Rightarrow> error + real) \<Rightarrow> (Mat \<Rightarrow> error + real) \<Rightarrow> Mat \<Rightarrow> Rect list \<Rightarrow> error + Detections" where
  "ProcessFrame classifier detector frame boundingRects =
     ProcessFrame_loop classifier detector frame (ProcessFrame_roi frame) boundingRects
       \<lparr>detections = [], classifier_calls = []\<rparr>"

section \<open>Dataset loader: auxiliary facts\<close>

lemma ReadInt_cons4:
  "ReadInt \<lparr>rest = a # b # c # d # xs, failed = False\<rparr>
     = (push_bit 24 (ucast a) OR push_bit 16 (ucast b) OR push_bit 8 (ucast c) OR ucast d,
        \<lparr>rest = xs, failed = False\<rparr>)"
  by (simp add: ReadInt_def ifstream_get_def eval_nat_numeral or.assoc)

lemma ReadInt_snd:
  "4 \<le> length bs \<Longrightarrow> snd (ReadInt \<lparr>rest = bs, failed = False\<rparr>) = \<lparr>rest = drop 4 bs, failed = False\<rparr>"
proof -
  assume len: "4 \<le> length bs"
  then obtain a bs1 where 1: "bs = a # bs1" by (cases bs) auto
  with len obtain b bs2 where 2: "bs1 = b # bs2" by (cases bs1) auto
  with 1 len obtain c bs3 where 3: "bs2 = c # bs3" by (cases bs2) auto
  with 1 2 len obtain d xs where 4: "bs3 = d # xs" by (cases bs3) auto
  show ?thesis unfolding 1 2 3 4 by (simp add: ReadInt_cons4)
qed





lemma ReadMnistImageFile_loop_complete:
  assumes "0 \<le> sint R" "0 \<le> sint C" "unat R * unat C < 2 ^ 32"
  shows "k * (unat R * unat C) \<le> length bs \<Longrightarrow>
     ReadMnistImageFile_loop mem R C k i \<lparr>rest = bs, failed = False\<rparr> images
       = Inr (\<lparr>rest = drop (k * (unat R * unat C)) bs, failed = False\<rparr>,
              images @ map (\<lambda>j. \<lparr>rows = unat R, cols = unat C,
                     data = map (THRESH_BINARY 90 255) (take (unat R * unat C) (drop (j * (unat R * unat C)) bs))\<rparr>) [0..<k])"
proof (induction k arbitrary: i bs images)
  case 0
  then show ?case by simp
next
  case (Suc k)
  let ?n = "unat R * unat C"
  have sz: "unat (R * C) = ?n"
    using assms(3) by (simp add: unat_word_ariths)
  have len: "?n \<le> length bs" and len': "k * ?n \<le> length (drop ?n bs)"
    using Suc.prems by simp_all
  have rd: "ifstream_read \<lparr>rest = bs, failed = False\<rparr> (map (mem i) [0..<?n]) ?n
      = (take ?n bs, \<lparr>rest = drop ?n bs, failed = False\<rparr>)"
    using len by (simp add: ifstream_read_def)
  have m: "map (\<lambda>j. \<lparr>rows = unat R, cols = unat C,
                     data = map (THRESH_BINARY 90 255) (take ?n (drop (j * ?n) bs))\<rparr>) [0..<Suc k]
     = \<lparr>rows = unat R, cols = unat C, data = map (THRESH_BINARY 90 255) (take ?n bs)\<rparr>
       # map (\<lambda>j. \<lparr>rows = unat R, cols = unat C,
                     data = map (THRESH_BINARY 90 255) (take ?n (drop (j * ?n) (drop ?n bs)))\<rparr>) [0..<k]"
    by (simp add: upt_conv_Cons map_Suc_upt [symmetric] add.commute del: upt_Suc)
  show ?case
    using assms(1,2) Suc.IH [OF len', of "Suc i"] 
    by (simp add: Mat_create_def not_less sz rd threshold_def m add.commute del: upt_Suc)
qed

lemma image_header_stream:
  assumes "16 \<le> length content"
  shows "snd (ReadInt (snd (ReadInt (snd (ReadInt (snd (ReadInt \<lparr>rest = content, failed = False\<rparr>)))))))
     = \<lparr>rest = drop 16 content, failed = False\<rparr>"
  using assms by (simp add: ReadInt_snd)


lemma ReadMnistImageFile_loop_numeral:
  "ReadMnistImageFile_loop mem numRows numColumns (numeral k) i f images =
     (case Mat_create numRows numColumns (mem i) of
        Inl e \<Rightarrow> Inl e
      | Inr img \<Rightarrow>
          (let imageSize = numRows * numColumns;
               (buf, file') = ifstream_read f (data img) (unat imageSize);
               img' = threshold (img\<lparr>data := buf\<rparr>) 90 255
           in ReadMnistImageFile_loop mem numRows numColumns (pred_numeral k) (Suc i) file' (images @ [img'])))"
  by (simp add: numeral_eq_Suc)

lemma LoadMnistLabelFile_loop_numeral:
  "LoadMnistLabelFile_loop (numeral k) i f labels =
     (let (buf, file') = ifstream_read f (take 1 (drop i (data labels))) 1
      in LoadMnistLabelFile_loop (pred_numeral k) (Suc i) file'
           (labels\<lparr>data := take i (data labels) @ buf @ drop (Suc i) (data labels)\<rparr>))"
  by (simp add: numeral_eq_Suc)

section \<open>Dataset loader: results\<close>

text \<open>
  C2 (as amended). The loader turns a byte into 255 exactly when it is greater than 90:
  for a file that holds its header and all \<open>N * R * C\<close> pixel bytes, image \<open>j\<close> is the
  \<open>j\<close>-th block of \<open>R * C\<close> bytes after the header with every byte \<open>p\<close> replaced by
  \<open>if 90 < p then 255 else 0\<close>. So 91 is foreground, 90 and 89 are background.
\<close>

theorem binarization_strict_above_90:
  assumes "fs filename = Some content"
    and "image_header content = (N, R, C)"
    and "0 \<le> sint R" and "0 \<le> sint C" and "unat R * unat C < 2 ^ 32"
    and "16 + unat N * (unat R * unat C) \<le> length content"
  shows "ReadMnistImageFile fs mem filename images
     = Inr (True, images @ map (\<lambda>j. \<lparr>rows = unat R, cols = unat C,
               data = map (\<lambda>p. if 90 < p then 255 else 0)
                          (take (unat R * unat C) (drop (16 + j * (unat R * unat C)) content))\<rparr>)
             [0..<unat N])
     \<and> (if 90 < (91::byte) then 255 else 0) = (255::byte)
     \<and> (if 90 < (90::byte) then 255 else 0) = (0::byte)
     \<and> (if 90 < (89::byte) then 255 else 0) = (0::byte)"
proof -
  have len: "16 \<le> length content" using assms(6) by simp
  have pay: "unat N * (unat R * unat C) \<le> length (drop 16 content)" using assms(6) by simp
  have T: "THRESH_BINARY 90 255 = (\<lambda>p. if 90 < p then 255 else 0)"
    by (rule ext) (simp add: THRESH_BINARY_def)
  have "ReadMnistImageFile fs mem filename images
     = Inr (True, images @ map (\<lambda>j. \<lparr>rows = unat R, cols = unat C,
               data = map (THRESH_BINARY 90 255)
                          (take (unat R * unat C) (drop (j * (unat R * unat C)) (drop 16 content)))\<rparr>)
             [0..<unat N])"
    using assms(1,2) image_header_stream [OF len]
      ReadMnistImageFile_loop_complete [OF assms(3,4,5) pay, of mem 0 images]
    by (auto simp: ReadMnistImageFile_def image_header_def Let_def split: prod.splits)
  then have "ReadMnistImageFile fs mem filename images
     = Inr (True, images @ map (\<lambda>j. \<lparr>rows = unat R, cols = unat C,
               data = map (\<lambda>p. if 90 < p then 255 else 0)
                          (take (unat R * unat C) (drop (16 + j * (unat R * unat C)) content))\<rparr>)
             [0..<unat N])"
    by (simp only: T drop_drop add.commute)
  then show ?thesis by simp
qed

theorem binarization_strict_above_90_witness:
  "ReadMnistImageFile [''train-images.idx3-ubyte'' \<mapsto> [0,0,8,3, 0,0,0,1, 0,0,0,1, 0,0,0,3, 89, 90, 91]]
        (\<lambda>i j. 0) ''train-images.idx3-ubyte'' []
      = Inr (True, [\<lparr>rows = 1, cols = 3, data = [0, 0, 255]\<rparr>])"
proof -
  let ?c = "[0,0,8,3, 0,0,0,1, 0,0,0,1, 0,0,0,3, 89, 90, 91] :: byte list"
  let ?fs = "[''train-images.idx3-ubyte'' \<mapsto> ?c]"
  have 1: "?fs ''train-images.idx3-ubyte'' = Some ?c" by simp
  have 2: "image_header ?c = (1, 1, 3)"
    by code_simp
  have 3: "0 \<le> sint (1::32 word)" and 4: "0 \<le> sint (3::32 word)" by simp_all
  have 5: "unat (1::32 word) * unat (3::32 word) < 2 ^ 32" by simp
  have 6: "16 + unat (1::32 word) * (unat (1::32 word) * unat (3::32 word)) \<le> length ?c" by simp
  from binarization_strict_above_90 [of ?fs "''train-images.idx3-ubyte''" ?c 1 1 3 "\<lambda>i j. 0" "[]",
      OF 1 2 3 4 5 6]
  show ?thesis by (simp add: upt_conv_Cons)
qed

text \<open>
  The claim as stated fails at intensity 90: \<open>THRESH_BINARY\<close> is a strict comparison,
  and a file whose only pixel is 90 loads as the pixel 0.
\<close>

theorem binarization_at_90_counterexample:
  "THRESH_BINARY 90 255 90 = 0 \<and> THRESH_BINARY 90 255 90 \<noteq> 255
   \<and> ReadMnistImageFile [''train-images.idx3-ubyte'' \<mapsto> [0,0,8,3, 0,0,0,1, 0,0,0,1, 0,0,0,1, 90]]
        (\<lambda>i j. 0) ''train-images.idx3-ubyte'' []
      = Inr (True, [\<lparr>rows = 1, cols = 1, data = [0]\<rparr>])"
  by code_simp


text \<open>
  C3. The file with header (magic, 3, 2, 2), whatever the four magic bytes are, followed
  by the twelve bytes of the scenario, loads as the three 2 by 2 images of the scenario,
  in that order, appended to the vector \<open>images\<close> the caller passes (empty in the
  program), and the loader returns \<open>true\<close>.
\<close>

theorem concrete_image_file:
  "ReadMnistImageFile
     (fs(filename \<mapsto> [m1, m2, m3, m4, 0,0,0,3, 0,0,0,2, 0,0,0,2,
                      100,10,10,100, 95,95,0,0, 5,5,5,5]))
     mem filename images
   = Inr (True, images @
                [\<lparr>rows = 2, cols = 2, data = [255, 0, 0, 255]\<rparr>,
                 \<lparr>rows = 2, cols = 2, data = [255, 255, 0, 0]\<rparr>,
                 \<lparr>rows = 2, cols = 2, data = [0, 0, 0, 0]\<rparr>])"
  by (simp add: ReadMnistImageFile_def ReadInt_cons4 ReadMnistImageFile_loop_numeral
      Mat_create_def ifstream_read_def threshold_def THRESH_BINARY_def)




section \<open>Features and testing: auxiliary facts\<close>

lemma getDescriptorSize_HogSvm_new:
  "getDescriptorSize (m_hog (HogSvm_new m)) = Inr 1521"
  by (simp add: getDescriptorSize_def HogSvm_new_def)

lemma ExtractFeatures_HogSvm_new:
  assumes "0 < rows img" and "0 < cols img"
  shows "ExtractFeatures interpolate hog_value (HogSvm_new m) img []
     = Inr (True, [map (hog_value \<lparr>rows = 28, cols = 28, data = map (interpolate img \<lparr>Size.width = 28, Size.height = 28\<rparr>) [0..<784]\<rparr>) [0..<1521]])"
  using assms
  by (simp add: ExtractFeatures_def getDescriptorSize_HogSvm_new resize_def HOGDescriptor_compute_def
      windowsInImage_def push_back_def) (simp add: HogSvm_new_def)

lemma ExtractFeatures_append:
  assumes "0 < rows img" and "0 < cols img" and "\<forall>v\<in>set features. length v = 1521"
  shows "ExtractFeatures interpolate hog_value (HogSvm_new m) img features
     = Inr (True, features @ [map (hog_value \<lparr>rows = 28, cols = 28,
                data = map (interpolate img \<lparr>Size.width = 28, Size.height = 28\<rparr>) [0..<784]\<rparr>) [0..<1521]])"
proof -
  let ?hogImage = "\<lparr>rows = 28, cols = 28, data = map (interpolate img \<lparr>Size.width = 28, Size.height = 28\<rparr>) [0..<784]\<rparr>"
  have w: "windowsInImage (m_hog (HogSvm_new m)) ?hogImage = 1"
    by (simp add: windowsInImage_def HogSvm_new_def)
  have ws: "winSize (m_hog (HogSvm_new m)) = \<lparr>Size.width = 28, Size.height = 28\<rparr>"
    by (simp add: HogSvm_new_def)
  show ?thesis using assms
    by (cases features)
      (simp_all add: ExtractFeatures_def getDescriptorSize_HogSvm_new resize_def
        HOGDescriptor_compute_def push_back_def w ws)
qed

lemma ExtractFeatures_images_map:
  assumes "\<forall>img\<in>set images. 0 < rows img \<and> 0 < cols img"
    and "\<forall>v\<in>set features. length v = 1521"
  shows "ExtractFeatures_images interpolate hog_value (HogSvm_new m) images features
     = Inr (True, features @ map (\<lambda>img. map (hog_value \<lparr>rows = 28, cols = 28,
                data = map (interpolate img \<lparr>Size.width = 28, Size.height = 28\<rparr>) [0..<784]\<rparr>) [0..<1521]) images)"
  using assms
proof (induction images arbitrary: features)
  case Nil
  then show ?case by simp
next
  case (Cons img images)
  have 1: "0 < rows img" "0 < cols img" using Cons.prems(1) by simp_all
  show ?case
    using Cons.prems Cons.IH [of "features @ [map (hog_value \<lparr>rows = 28, cols = 28,
                data = map (interpolate img \<lparr>Size.width = 28, Size.height = 28\<rparr>) [0..<784]\<rparr>) [0..<1521]]"]
    by (simp add: ExtractFeatures_append [OF 1 Cons.prems(2)])
qed

lemma HogSvm_Predict_row:
  assumes "0 < rows img" and "0 < cols img"
  shows "HogSvm_Predict interpolate hog_value svm_predict (HogSvm_new m) img
     = Inr (svm_predict m (map (hog_value \<lparr>rows = 28, cols = 28,
                data = map (interpolate img \<lparr>Size.width = 28, Size.height = 28\<rparr>) [0..<784]\<rparr>) [0..<1521]))"
  using ExtractFeatures_append [OF assms, of "[]" interpolate hog_value m]
  by (simp add: HogSvm_Predict_def Svm_Predict_def HogSvm_new_def)

lemma Svm_Test_loop_count:
  "i + length svmFeatures \<le> length svmLabels \<Longrightarrow>
   Svm_Test_loop svm_predict m svmFeatures svmLabels i errors
     = Inr (errors + length (filter (\<lambda>(v, l). static_cast_int (svm_predict m v) \<noteq> l)
                                   (zip svmFeatures (drop i svmLabels))))"
proof (induction svmFeatures arbitrary: i errors)
  case Nil
  then show ?case by simp
next
  case (Cons v svmFeatures)
  have i: "i < length svmLabels" using Cons.prems by simp
  have d: "drop i svmLabels = svmLabels ! i # drop (Suc i) svmLabels"
    using i by (simp add: Cons_nth_drop_Suc)
  show ?case
    using Cons.prems i Cons.IH [of "Suc i"]
    by (simp add: d Let_def)
qed


lemma HogSvm_Test_counts:
  assumes ne: "\<forall>img\<in>set images. 0 < rows img \<and> 0 < cols img"
    and len: "length labels = length images"
  shows "HogSvm_Test interpolate hog_value svm_predict (HogSvm_new m) images labels
     = Inr (float_divide
              (float_times (Finite 100) (int_to_float (int (length (filter
                    (\<lambda>(img, l). map_sum id static_cast_int
                                  (HogSvm_Predict interpolate hog_value svm_predict (HogSvm_new m) img)
                                \<noteq> Inr (uint l))
                    (zip images labels))))))
              (int_to_float (int (length images))))"
proof -
  define row where "row = (\<lambda>img. map (hog_value \<lparr>rows = 28, cols = 28,
                data = map (interpolate img \<lparr>Size.width = 28, Size.height = 28\<rparr>) [0..<784]\<rparr>) [0..<1521])"
  define P where "P = (\<lambda>(v, l). static_cast_int (svm_predict m v) \<noteq> l)"
  define Q where "Q = (\<lambda>(img, l :: byte). map_sum id static_cast_int
                                  (HogSvm_Predict interpolate hog_value svm_predict (HogSvm_new m) img)
                                \<noteq> Inr (uint l))"
  have ef: "ExtractFeatures_images interpolate hog_value (HogSvm_new m) images [] = Inr (True, map row images)"
    using ne ExtractFeatures_images_map [of images "[]" interpolate hog_value m]
    by (simp add: row_def)
  have lp: "Svm_Test_loop svm_predict m (map row images) (map uint labels) 0 0
      = Inr (length (filter P (zip (map row images) (map uint labels))))"
    using len Svm_Test_loop_count [of 0 "map row images" "map uint labels" svm_predict m 0]
    by (simp add: P_def)
  have "filter P (zip (map row images) (map uint labels))
      = map (map_prod row uint) (filter (P \<circ> map_prod row uint) (zip images labels))"
    by (simp add: zip_map_map filter_map map_prod_def)
  moreover have "filter (P \<circ> map_prod row uint) (zip images labels) = filter Q (zip images labels)"
  proof (rule filter_cong [OF refl])
    fix p assume mem: "p \<in> set (zip images labels)"
    obtain img l where p: "p = (img, l)" by (rule prod.exhaust)
    from mem p have "img \<in> set images" by (auto dest: set_zip_leftD)
    with ne have "0 < rows img" "0 < cols img" by simp_all
    from HogSvm_Predict_row [OF this, of interpolate hog_value svm_predict m]
    show "(P \<circ> map_prod row uint) p = Q p"
      by (simp add: p P_def Q_def row_def)
  qed
  ultimately have cnt: "length (filter P (zip (map row images) (map uint labels)))
      = length (filter Q (zip images labels))"
    by simp
  have ms: "m_svm (HogSvm_new m) = m" by (simp add: HogSvm_new_def)
  have "HogSvm_Test interpolate hog_value svm_predict (HogSvm_new m) images labels
      = Inr (float_divide (float_times (Finite 100) (int_to_float (int (length (filter Q (zip images labels))))))
               (int_to_float (int (length images))))"
    using len by (simp add: HogSvm_Test_def ef Svm_Test_def ms lp cnt)
  then show ?thesis by (simp only: Q_def)
qed

lemma round_half_even_of_int: "round_half_even (of_int k) = k"
  by (simp add: round_half_even_def)

lemma floor_le_round_half_even: "\<lfloor>r\<rfloor> \<le> round_half_even r"
  by (simp add: round_half_even_def Let_def)

lemma binary32_of_int_exact:
  assumes "0 \<le> n" and "n \<le> 2 ^ 24"
  shows "binary32 (of_int n) = Finite (of_int n)"
proof (cases "n = 0")
  case True
  then show ?thesis by (simp add: binary32_def)
next
  case False
  with assms have pos: "0 < n" by simp
  define e where "e = bitlen n - 1"
  have b: "2 ^ nat e \<le> n" "n < 2 ^ nat (bitlen n)"
    using bitlen_bounds [OF pos] by (simp_all add: e_def)
  have e0: "0 \<le> e" using pos bitlen_nonneg [of n] bitlen_eq_zero_iff [of n] by (simp add: e_def)
  have fl: "floor_log2 \<bar>real_of_int n\<bar> = e"
    using pos by (simp add: floor_log2_def e_def)
  have h: "(2::int) ^ nat e \<le> 2 ^ 24" using b(1) assms(2) by simp
  have "nat e \<le> 24" by (rule power_le_imp_le_exp [OF _ h]) simp
  then have e24: "e \<le> 24" by simp
  have m: "real_of_int (round_half_even (\<bar>real_of_int n\<bar> / (if 23 \<le> e then 2 ^ nat (e - 23) else 1 / 2 ^ nat (23 - e))))
       * (if 23 \<le> e then 2 ^ nat (e - 23) else 1 / 2 ^ nat (23 - e)) = real_of_int n"
  proof (cases "e = 24")
    case True
    then have "n = 2 ^ 24" using b(1) assms(2) by simp
    then have "\<bar>real_of_int n\<bar> / 2 = real_of_int (2 ^ 23)" by simp
    then have "round_half_even (\<bar>real_of_int n\<bar> / 2) = 2 ^ 23"
      by (simp only: round_half_even_of_int)
    then show ?thesis using True \<open>n = 2 ^ 24\<close> by simp
  next
    case False
    with e24 have le: "e \<le> 23" by simp
    have "\<bar>real_of_int n\<bar> / (1 / 2 ^ nat (23 - e)) = real_of_int (n * 2 ^ nat (23 - e))"
      using pos by simp
    then have r: "round_half_even (\<bar>real_of_int n\<bar> / (1 / 2 ^ nat (23 - e))) = n * 2 ^ nat (23 - e)"
      by (simp only: round_half_even_of_int)
    show ?thesis
    proof (cases "e = 23")
      case True
      then show ?thesis using pos by (simp add: round_half_even_of_int)
    next
      case False
      with le have "\<not> 23 \<le> e" by simp
      then show ?thesis using r by simp
    qed
  qed
  have lt: "real_of_int n < 2 ^ 128"
  proof -
    have "real_of_int n \<le> 2 ^ 24" using assms(2) by (metis of_int_le_iff of_int_numeral of_int_power)
    also have "\<dots> < (2::real) ^ 128" by simp
    finally show ?thesis .
  qed
  have ne: "real_of_int n \<noteq> 0" using pos by simp
  have mx: "max e (- 126) = e" using e0 by simp
  have "binary32 (of_int n)
      = (if 2 ^ 128 \<le> real_of_int n then (if 0 < real_of_int n then PlusInfinity else MinusInfinity)
         else Finite (sgn (real_of_int n) * real_of_int n))"
    unfolding binary32_def Let_def by (simp only: ne if_False fl mx m)
  then show ?thesis using pos lt by simp
qed

lemma binary32_of_int_positive:
  assumes pos: "0 < n"
  shows "binary32 (of_int n) = PlusInfinity \<or> (\<exists>b. binary32 (of_int n) = Finite b \<and> 0 < b)"
proof -
  define e where "e = max (floor_log2 \<bar>real_of_int n\<bar>) (- 126)"
  define ulp :: real where "ulp = (if 23 \<le> e then 2 ^ nat (e - 23) else 1 / 2 ^ nat (23 - e))"
  define k where "k = round_half_even (\<bar>real_of_int n\<bar> / ulp)"
  have up: "0 < ulp" by (simp add: ulp_def)
  have fl: "floor_log2 \<bar>real_of_int n\<bar> = bitlen n - 1"
    using pos by (simp add: floor_log2_def)
  have b: "2 ^ nat (bitlen n - 1) \<le> n" using bitlen_bounds [OF pos] by simp
  have e0: "0 \<le> bitlen n - 1"
    using pos bitlen_nonneg [of n] bitlen_eq_zero_iff [of n] by simp
  then have e: "e = bitlen n - 1" by (simp add: e_def fl)
  have "ulp \<le> real_of_int n"
  proof (cases "23 \<le> e")
    case True
    then have "ulp = 2 ^ nat (e - 23)" by (simp add: ulp_def)
    also have "\<dots> \<le> (2::real) ^ nat e" by (intro power_increasing) simp_all
    also have "\<dots> = real_of_int (2 ^ nat e)" by simp
    also have "\<dots> \<le> real_of_int n" using b e by (simp only: of_int_le_iff)
    finally show ?thesis .
  next
    case False
    then have "ulp = 1 / 2 ^ nat (23 - e)" by (simp add: ulp_def)
    also have "\<dots> \<le> 1" by simp
    also have "\<dots> \<le> real_of_int n" using pos by simp
    finally show ?thesis .
  qed
  then have "1 \<le> \<bar>real_of_int n\<bar> / ulp" using up pos by (simp add: le_divide_eq)
  then have "(1::int) \<le> \<lfloor>\<bar>real_of_int n\<bar> / ulp\<rfloor>" by (simp add: le_floor_iff)
  with floor_le_round_half_even [of "\<bar>real_of_int n\<bar> / ulp"] have k1: "1 \<le> k"
    unfolding k_def by linarith
  then have mp: "0 < real_of_int k * ulp" using up by simp
  have ne: "real_of_int n \<noteq> 0" using pos by simp
  have "binary32 (of_int n)
      = (if 2 ^ 128 \<le> real_of_int k * ulp then (if 0 < real_of_int n then PlusInfinity else MinusInfinity)
         else Finite (sgn (real_of_int n) * (real_of_int k * ulp)))"
    unfolding binary32_def Let_def by (simp only: ne if_False e_def [symmetric] ulp_def [symmetric] k_def [symmetric])
  then show ?thesis using pos mp by (auto split: if_splits)
qed

lemma binary32_zero: "binary32 0 = Finite 0"
  by (simp add: binary32_def)

lemma float_divide_zero_by_count:
  "float_divide (Finite 0) (int_to_float (int n)) = (if n = 0 then NaN else Finite 0)"
proof (cases "n = 0")
  case True
  then show ?thesis by (simp add: int_to_float_def binary32_zero)
next
  case False
  then have "0 < int n" by simp
  from binary32_of_int_positive [OF this] False show ?thesis
    by (auto simp: int_to_float_def binary32_zero)
qed


section \<open>Features and testing: results\<close>

text \<open>
  C9. With the configuration of the constructor (window 28 by 28, block 4 by 4, block
  stride 2 by 2, cell 4 by 4, 9 bins) feature extraction appends one vector to the feature
  matrix, and its length is 1521 whatever image it is given: every image with at least
  one pixel yields such a vector, and every vector that is yielded, for any image and any
  feature matrix, has that length. So the length is the same for any two images.
\<close>

theorem feature_length_fixed:
  "(0 < rows img \<and> 0 < cols img \<longrightarrow>
      (\<exists>v. ExtractFeatures interpolate hog_value (HogSvm_new m) img [] = Inr (True, [v])
            \<and> length v = 1521))
   \<and> (\<forall>features features'.
        ExtractFeatures interpolate hog_value (HogSvm_new m) img features = Inr (True, features')
        \<longrightarrow> features' \<noteq> [] \<and> length (last features') = 1521 \<and> butlast features' = features)"
proof (intro conjI allI impI)
  assume "0 < rows img \<and> 0 < cols img"
  then show "\<exists>v. ExtractFeatures interpolate hog_value (HogSvm_new m) img [] = Inr (True, [v])
            \<and> length v = 1521"
    by (simp add: ExtractFeatures_HogSvm_new)
next
  fix features features'
  assume a: "ExtractFeatures interpolate hog_value (HogSvm_new m) img features = Inr (True, features')"
  let ?hogImage = "\<lparr>rows = 28, cols = 28, data = map (interpolate img \<lparr>Size.width = 28, Size.height = 28\<rparr>) [0..<784]\<rparr>"
  have w: "windowsInImage (m_hog (HogSvm_new m)) ?hogImage = 1"
    by (simp add: windowsInImage_def HogSvm_new_def)
  have ws: "winSize (m_hog (HogSvm_new m)) = \<lparr>Size.width = 28, Size.height = 28\<rparr>"
    by (simp add: HogSvm_new_def)
  from a have "features' = features @ [map (hog_value ?hogImage) [0..<1521]]"
    by (auto simp: ExtractFeatures_def getDescriptorSize_HogSvm_new resize_def HOGDescriptor_compute_def
        push_back_def w ws split: if_splits list.splits sum.splits)
  then show "features' \<noteq> []" and "length (last features') = 1521" and "butlast features' = features"
    by simp_all
qed


theorem feature_length_fixed_witness:
  "(\<exists>v. ExtractFeatures (\<lambda>src dsize k. 0) (\<lambda>img k. real k) (HogSvm_new ())
           \<lparr>rows = 1, cols = 3, data = [0, 255, 0]\<rparr> [] = Inr (True, [v])
         \<and> length v = 1521)"
proof -
  have "0 < rows \<lparr>rows = 1, cols = 3, data = [0, 255, 0 :: byte]\<rparr>
      \<and> 0 < cols \<lparr>rows = 1, cols = 3, data = [0, 255, 0 :: byte]\<rparr>"
    by simp
  with feature_length_fixed [of "\<lparr>rows = 1, cols = 3, data = [0, 255, 0]\<rparr>"
      "\<lambda>src dsize k. 0" "\<lambda>img k. real k" "()"]
  show ?thesis by blast
qed

text \<open>
  C7 (as amended). For a non-empty vector of images, each with at least one pixel, and as
  many labels as images, the test returns the \<open>float\<close> value of
  \<open>(100.0f * mismatches) / total\<close>: \<open>mismatches\<close>, the number of images whose prediction,
  cast to \<open>int\<close>, differs from the label, and \<open>total\<close>, the number of images, are
  converted to \<open>float\<close>, and the product and the quotient are each rounded to the nearest
  \<open>float\<close>. When 100 times the mismatches and the total are at most \<open>2^24\<close> (any dataset
  up to 167772 images) the conversions and the product are exact and the result is the
  quotient \<open>100 * mismatches / total\<close> rounded once to the nearest \<open>float\<close>; it is that
  quotient itself only when the quotient is a \<open>float\<close>. On an empty vector of images
  the test does not fail: it returns the \<open>float\<close> quotient of 0 by the number of labels,
  which is NaN when there are no labels and 0 otherwise.
\<close>

theorem Test_error_rate:
  "(images \<noteq> [] \<and> (\<forall>img\<in>set images. 0 < rows img \<and> 0 < cols img) \<and> length labels = length images
      \<longrightarrow> (let mismatches = length (filter
                    (\<lambda>(img, l). map_sum id static_cast_int
                                  (HogSvm_Predict interpolate hog_value svm_predict (HogSvm_new m) img)
                                \<noteq> Inr (uint l))
                    (zip images labels));
                total = length images
            in HogSvm_Test interpolate hog_value svm_predict (HogSvm_new m) images labels
                 = Inr (float_divide (float_times (Finite 100) (int_to_float (int mismatches)))
                          (int_to_float (int total)))
               \<and> (100 * mismatches \<le> 2 ^ 24 \<and> total \<le> 2 ^ 24
                    \<longrightarrow> HogSvm_Test interpolate hog_value svm_predict (HogSvm_new m) images labels
                          = Inr (binary32 (100 * real mismatches / real total)))))
   \<and> HogSvm_Test interpolate hog_value svm_predict s [] labels
       = Inr (if labels = [] then NaN else Finite 0)"
proof (intro conjI impI)
  show "HogSvm_Test interpolate hog_value svm_predict s [] labels
       = Inr (if labels = [] then NaN else Finite 0)"
    using float_divide_zero_by_count [of "length labels"]
    by (simp add: HogSvm_Test_def Svm_Test_def binary32_zero int_to_float_def [of 0])
next
  assume a: "images \<noteq> [] \<and> (\<forall>img\<in>set images. 0 < rows img \<and> 0 < cols img)
    \<and> length labels = length images"
  define K where "K = length (filter
                    (\<lambda>(img, l). map_sum id static_cast_int
                                  (HogSvm_Predict interpolate hog_value svm_predict (HogSvm_new m) img)
                                \<noteq> Inr (uint l))
                    (zip images labels))"
  from a have t: "HogSvm_Test interpolate hog_value svm_predict (HogSvm_new m) images labels
      = Inr (float_divide (float_times (Finite 100) (int_to_float (int K)))
               (int_to_float (int (length images))))"
    unfolding K_def by (intro HogSvm_Test_counts) simp_all
  have exact: "HogSvm_Test interpolate hog_value svm_predict (HogSvm_new m) images labels
      = Inr (binary32 (100 * real K / real (length images)))"
    if small: "100 * K \<le> 2 ^ 24 \<and> length images \<le> 2 ^ 24"
  proof -
    have "int K \<le> 2 ^ 24" and "int (100 * K) \<le> 2 ^ 24" and "int (length images) \<le> 2 ^ 24"
      using small by simp_all
    then have k: "int_to_float (int K) = Finite (real K)"
      and p: "binary32 (real_of_int (int (100 * K))) = Finite (real_of_int (int (100 * K)))"
      and n: "int_to_float (int (length images)) = Finite (real (length images))"
      unfolding int_to_float_def
      using binary32_of_int_exact [of "int K"] binary32_of_int_exact [of "int (100 * K)"]
        binary32_of_int_exact [of "int (length images)"]
      by simp_all
    have p': "binary32 (100 * real K) = Finite (100 * real K)" using p by simp
    have "length images \<noteq> 0" using a by simp
    then show ?thesis by (simp add: t k n p')
  qed
  show "let mismatches = length (filter
                    (\<lambda>(img, l). map_sum id static_cast_int
                                  (HogSvm_Predict interpolate hog_value svm_predict (HogSvm_new m) img)
                                \<noteq> Inr (uint l))
                    (zip images labels));
                total = length images
            in HogSvm_Test interpolate hog_value svm_predict (HogSvm_new m) images labels
                 = Inr (float_divide (float_times (Finite 100) (int_to_float (int mismatches)))
                          (int_to_float (int total)))
               \<and> (100 * mismatches \<le> 2 ^ 24 \<and> total \<le> 2 ^ 24
                    \<longrightarrow> HogSvm_Test interpolate hog_value svm_predict (HogSvm_new m) images labels
                          = Inr (binary32 (100 * real mismatches / real total)))"
    unfolding Let_def K_def [symmetric] using t exact by blast
qed

theorem Test_error_rate_witness:
  "HogSvm_Test (\<lambda>src dsize k. 0) (\<lambda>img k. 0) (\<lambda>m v. 1) (HogSvm_new ())
      [\<lparr>rows = 1, cols = 1, data = [0]\<rparr>, \<lparr>rows = 1, cols = 1, data = [255]\<rparr>,
       \<lparr>rows = 1, cols = 1, data = [255]\<rparr>] [1, 0, 1]
    = Inr (Finite (8738133 / 262144))"
proof -
  let ?images = "[\<lparr>rows = 1, cols = 1, data = [0]\<rparr>, \<lparr>rows = 1, cols = 1, data = [255]\<rparr>,
       \<lparr>rows = 1, cols = 1, data = [255]\<rparr>]"
  have p: "\<And>img. 0 < rows img \<Longrightarrow> 0 < cols img \<Longrightarrow>
      HogSvm_Predict (\<lambda>src dsize k. 0) (\<lambda>img k. 0) (\<lambda>m v. 1) (HogSvm_new ()) img = Inr 1"
    by (simp add: HogSvm_Predict_row)
  have h: "?images \<noteq> [] \<and> (\<forall>img\<in>set ?images. 0 < rows img \<and> 0 < cols img)
      \<and> length [1, 0, 1 :: byte] = length ?images"
    by simp
  have r: "binary32 (100 / 3) = Finite (8738133 / 262144)" by code_simp
  have f1: "int_to_float 1 = Finite 1" and f3: "int_to_float 3 = Finite 3"
    using binary32_of_int_exact [of 1] binary32_of_int_exact [of 3] by (simp_all add: int_to_float_def)
  have f100: "binary32 100 = Finite 100"
    using binary32_of_int_exact [of 100] by simp
  from Test_error_rate [of ?images "[1, 0, 1]" "\<lambda>src dsize k. 0" "\<lambda>img k. 0" "\<lambda>m v. 1" "()"
      "HogSvm_new ()"] h
  show ?thesis by (simp add: p static_cast_int_def r f1 f3 f100)
qed

text \<open>
  The claim as stated fails on the empty dataset, where the test returns NaN (and 0
  when labels are passed with no images), not an error; on three images with one
  mismatch, where the test returns the \<open>float\<close> 8738133/262144 and not 100/3; and on a
  dataset that holds an image without pixels, where no rate is returned.
\<close>

theorem Test_error_rate_counterexample:
  "HogSvm_Test (\<lambda>src dsize k. 0) (\<lambda>img k. 0) (\<lambda>m v. 1) (HogSvm_new ()) [] [] = Inr NaN
   \<and> HogSvm_Test (\<lambda>src dsize k. 0) (\<lambda>img k. 0) (\<lambda>m v. 1) (HogSvm_new ()) [] [7] = Inr (Finite 0)
   \<and> HogSvm_Test (\<lambda>src dsize k. 0) (\<lambda>img k. 0) (\<lambda>m v. 1) (HogSvm_new ())
        [\<lparr>rows = 1, cols = 1, data = [0]\<rparr>, \<lparr>rows = 1, cols = 1, data = [255]\<rparr>,
         \<lparr>rows = 1, cols = 1, data = [255]\<rparr>] [1, 0, 1]
       = Inr (Finite (8738133 / 262144))
   \<and> Finite (8738133 / 262144) \<noteq> Finite (100 * 1 / 3)
   \<and> HogSvm_Test (\<lambda>src dsize k. 0) (\<lambda>img k. 0) (\<lambda>m v. 1) (HogSvm_new ())
        [\<lparr>rows = 0, cols = 3, data = []\<rparr>] [1]
       = Inl CvException"
proof -
  let ?images = "[\<lparr>rows = 1, cols = 1, data = [0]\<rparr>, \<lparr>rows = 1, cols = 1, data = [255]\<rparr>,
       \<lparr>rows = 1, cols = 1, data = [255 :: byte]\<rparr>]"
  have e1: "HogSvm_Test (\<lambda>src dsize k. 0) (\<lambda>img k. 0) (\<lambda>m v. 1) (HogSvm_new ()) [] [] = Inr NaN"
    using float_divide_zero_by_count [of 0]
    by (simp add: HogSvm_Test_def Svm_Test_def binary32_zero int_to_float_def [of 0])
  have e2: "HogSvm_Test (\<lambda>src dsize k. 0) (\<lambda>img k. 0) (\<lambda>m v. 1) (HogSvm_new ()) [] [7] = Inr (Finite 0)"
    using float_divide_zero_by_count [of 1]
    by (simp add: HogSvm_Test_def Svm_Test_def binary32_zero int_to_float_def [of 0])
  have p: "\<And>img. 0 < rows img \<Longrightarrow> 0 < cols img \<Longrightarrow>
      HogSvm_Predict (\<lambda>src dsize k. 0) (\<lambda>img k. 0) (\<lambda>m v. 1) (HogSvm_new ()) img = Inr 1"
    by (simp add: HogSvm_Predict_row)
  have f1: "int_to_float 1 = Finite 1" and f3: "int_to_float 3 = Finite 3"
    using binary32_of_int_exact [of 1] binary32_of_int_exact [of 3] by (simp_all add: int_to_float_def)
  have f100: "binary32 100 = Finite 100"
    using binary32_of_int_exact [of 100] by simp
  have r: "binary32 (100 / 3) = Finite (8738133 / 262144)" by code_simp
  have e3: "HogSvm_Test (\<lambda>src dsize k. 0) (\<lambda>img k. 0) (\<lambda>m v. 1) (HogSvm_new ()) ?images [1, 0, 1]
      = Inr (Finite (8738133 / 262144))"
    using HogSvm_Test_counts [of ?images "[1, 0, 1]" "\<lambda>src dsize k. 0" "\<lambda>img k. 0" "\<lambda>m v. 1" "()"]
    by (simp add: p static_cast_int_def f1 f3 f100 r)
  have e4: "Finite (8738133 / 262144) \<noteq> Finite (100 * 1 / 3)" by simp
  have e5: "HogSvm_Test (\<lambda>src dsize k. 0) (\<lambda>img k. 0) (\<lambda>m v. 1) (HogSvm_new ())
        [\<lparr>rows = 0, cols = 3, data = []\<rparr>] [1] = Inl CvException"
    by (simp add: HogSvm_Test_def ExtractFeatures_def getDescriptorSize_HogSvm_new resize_def)
  from e1 e2 e3 e4 e5 show ?thesis by blast
qed


section \<open>Frame processing: auxiliary facts\<close>

lemma static_cast_int_fifth:
  assumes "0 \<le> n"
  shows "static_cast_int (real_of_int n * 0.2) = n div 5"
proof -
  have "real_of_int n * 0.2 = real_of_int n / real_of_int 5" by simp
  moreover have "\<lfloor>real_of_int n / real_of_int 5\<rfloor> = n div 5"
    by (rule floor_divide_of_int_eq)
  ultimately show ?thesis using assms by (simp add: static_cast_int_def)
qed

lemma length_concat_uniform:
  "\<forall>v\<in>set vs. length v = W \<Longrightarrow> length (concat vs) = length vs * W"
  by (induction vs) simp_all

lemma concat_nth_uniform:
  "\<forall>v\<in>set vs. length v = W \<Longrightarrow> i < length vs \<Longrightarrow> j < W \<Longrightarrow> concat vs ! (i * W + j) = vs ! i ! j"
proof (induction vs arbitrary: i)
  case Nil
  then show ?case by simp
next
  case (Cons v vs)
  show ?case
  proof (cases i)
    case 0
    with Cons.prems show ?thesis by (simp add: nth_append)
  next
    case (Suc k)
    with Cons.prems have "concat vs ! (k * W + j) = vs ! k ! j"
      using Cons.IH [of k] by simp
    moreover have "(v @ concat vs) ! (Suc k * W + j) = concat vs ! (k * W + j)"
      using Cons.prems by (simp add: nth_append add.assoc)
    ultimately show ?thesis using Suc by simp
  qed
qed

lemma take_drop_concat_uniform:
  "\<forall>v\<in>set vs. length v = W \<Longrightarrow> i < length vs \<Longrightarrow> take W (drop (i * W) (concat vs)) = vs ! i"
proof (induction vs arbitrary: i)
  case Nil
  then show ?case by simp
next
  case (Cons v vs)
  show ?case
  proof (cases i)
    case 0
    with Cons.prems show ?thesis by simp
  next
    case (Suc k)
    with Cons.prems have "take W (drop (k * W) (concat vs)) = vs ! k"
      using Cons.IH [of k] by simp
    then show ?thesis using Suc Cons.prems by simp
  qed
qed

lemma frame_row_length:
  assumes wf: "length (data m) = rows m * cols m"
    and "a + w \<le> cols m" and "b < rows m"
  shows "length (take w (drop (b * cols m + a) (data m))) = w"
proof -
  have "Suc b * cols m \<le> rows m * cols m"
    using assms(3) by (intro mult_le_mono1) simp
  then have "b * cols m + a + w \<le> length (data m)"
    using assms(2) wf by simp
  then show ?thesis by simp
qed

lemma Mat_roi_shape:
  assumes "Mat_roi m r = Inr img" and wf: "length (data m) = rows m * cols m"
  shows "rows img = nat (Rect.height r)" and "cols img = nat (Rect.width r)"
    and "0 \<le> Rect.height r" and "0 \<le> Rect.width r"
    and "length (data img) = rows img * cols img"
    and "\<forall>i<rows img. take (cols img) (drop (i * cols img) (data img))
           = take (nat (Rect.width r)) (drop ((nat (y r) + i) * cols m + nat (x r)) (data m))"
    and "\<forall>i<rows img. length (take (cols img) (drop (i * cols img) (data img))) = cols img"
proof -
  let ?w = "nat (Rect.width r)" and ?h = "nat (Rect.height r)"
  let ?vs = "map (\<lambda>i. take ?w (drop ((nat (y r) + i) * cols m + nat (x r)) (data m))) [0..<?h]"
  have inside: "0 \<le> x r" "0 \<le> Rect.width r" "x r + Rect.width r \<le> int (cols m)"
      "0 \<le> y r" "0 \<le> Rect.height r" "y r + Rect.height r \<le> int (rows m)"
    and img: "img = \<lparr>rows = ?h, cols = ?w, data = concat ?vs\<rparr>"
    using assms(1) by (auto simp: Mat_roi_def split: if_splits)
  have u: "\<forall>v\<in>set ?vs. length v = ?w"
  proof
    fix v assume "v \<in> set ?vs"
    then obtain i where i: "i < ?h" and v: "v = take ?w (drop ((nat (y r) + i) * cols m + nat (x r)) (data m))"
      by auto
    have "nat (x r) + ?w \<le> cols m" and "nat (y r) + i < rows m"
      using inside i by linarith+
    from frame_row_length [OF wf this] show "length v = ?w" by (simp add: v)
  qed
  show "rows img = ?h" and "cols img = ?w" by (simp_all add: img)
  show "0 \<le> Rect.height r" and "0 \<le> Rect.width r" by (rule inside)+
  show "length (data img) = rows img * cols img"
    using length_concat_uniform [OF u] by (simp add: img)
  show row: "\<forall>i<rows img. take (cols img) (drop (i * cols img) (data img))
           = take (nat (Rect.width r)) (drop ((nat (y r) + i) * cols m + nat (x r)) (data m))"
  proof (intro allI impI)
    fix i assume "i < rows img"
    then have "i < length ?vs" by (simp add: img)
    from take_drop_concat_uniform [OF u this] \<open>i < rows img\<close>
    show "take (cols img) (drop (i * cols img) (data img))
           = take (nat (Rect.width r)) (drop ((nat (y r) + i) * cols m + nat (x r)) (data m))"
      by (simp add: img)
  qed
  show "\<forall>i<rows img. length (take (cols img) (drop (i * cols img) (data img))) = cols img"
  proof (intro allI impI)
    fix i assume i: "i < rows img"
    then have "?vs ! i \<in> set ?vs" by (simp add: img)
    with u have "length (?vs ! i) = ?w" by blast
    with row i show "length (take (cols img) (drop (i * cols img) (data img))) = cols img"
      by (simp add: img)
  qed
qed


lemma copyMakeBorder_shape:
  assumes cmb: "copyMakeBorder src t b l r v = Inr dst"
    and u0: "\<forall>i<rows src. length (take (cols src) (drop (i * cols src) (data src))) = cols src"
  shows "rows dst = rows src + nat t + nat b" and "cols dst = cols src + nat l + nat r"
    and "length (data dst) = rows dst * cols dst"
    and "\<forall>i j. i < rows dst \<and> j < cols dst
           \<and> (i < nat t \<or> nat t + rows src \<le> i \<or> j < nat l \<or> nat l + cols src \<le> j)
           \<longrightarrow> data dst ! (i * cols dst + j) = v"
    and "\<forall>i j. i < rows src \<and> j < cols src
           \<longrightarrow> data dst ! ((nat t + i) * cols dst + (nat l + j))
               = take (cols src) (drop (i * cols src) (data src)) ! j"
proof -
  let ?W = "cols src + nat l + nat r"
  let ?row = "\<lambda>i. replicate (nat l) v @ take (cols src) (drop (i * cols src) (data src)) @ replicate (nat r) v"
  let ?vs = "map ?row [0..<rows src]"
  let ?A = "replicate (nat t * ?W) v" and ?B = "replicate (nat b * ?W) v"
  have dst: "dst = \<lparr>rows = rows src + nat t + nat b, cols = ?W, data = ?A @ concat ?vs @ ?B\<rparr>"
    using cmb by (auto simp: copyMakeBorder_def Let_def split: if_splits)
  have u: "\<forall>w\<in>set ?vs. length w = ?W"
    using u0 by auto
  have lc: "length (concat ?vs) = rows src * ?W"
    using length_concat_uniform [OF u] by simp
  have skipA: "(?A @ X) ! (nat t * ?W + n) = X ! n" for X n
    using nth_append_length_plus [of ?A X n] by simp
  have skipM: "(concat ?vs @ X) ! (rows src * ?W + n) = X ! n" for X n
    using nth_append_length_plus [of "concat ?vs" X n] by (simp only: lc)
  show r: "rows dst = rows src + nat t + nat b" and c: "cols dst = cols src + nat l + nat r"
    by (simp_all add: dst)
  show "length (data dst) = rows dst * cols dst"
    by (simp add: dst lc algebra_simps)
  show "\<forall>i j. i < rows dst \<and> j < cols dst
           \<and> (i < nat t \<or> nat t + rows src \<le> i \<or> j < nat l \<or> nat l + cols src \<le> j)
           \<longrightarrow> data dst ! (i * cols dst + j) = v"
  proof (intro allI impI, elim conjE)
    fix i j
    assume i: "i < rows dst" and j: "j < cols dst"
      and border: "i < nat t \<or> nat t + rows src \<le> i \<or> j < nat l \<or> nat l + cols src \<le> j"
    have jW: "j < ?W" using j c by simp
    consider (top) "i < nat t" | (bottom) "nat t + rows src \<le> i"
      | (side) "nat t \<le> i" "i < nat t + rows src" "j < nat l \<or> nat l + cols src \<le> j"
      using border by linarith
    then show "data dst ! (i * cols dst + j) = v"
    proof cases
      case top
      then have "Suc i * ?W \<le> nat t * ?W" by (intro mult_le_mono1) simp
      then have "i * ?W + j < nat t * ?W" using jW by simp
      then show ?thesis by (simp add: dst nth_append)
    next
      case bottom
      obtain k where k: "i = nat t + rows src + k" using bottom by (metis le_Suc_ex)
      have kb: "k < nat b" using i r k by simp
      then have "Suc k * ?W \<le> nat b * ?W" by (intro mult_le_mono1) simp
      then have lt: "k * ?W + j < nat b * ?W" using jW by simp
      have idx: "i * ?W + j = nat t * ?W + (rows src * ?W + (k * ?W + j))"
        by (simp add: k add_mult_distrib)
      have "(?A @ concat ?vs @ ?B) ! (i * ?W + j) = ?B ! (k * ?W + j)"
        unfolding idx by (simp only: skipA skipM)
      with lt show ?thesis by (simp add: dst)
    next
      case side
      obtain k where k: "i = nat t + k" using side(1) by (metis le_Suc_ex)
      have kr: "k < rows src" using side(2) k by simp
      have idx: "i * ?W + j = nat t * ?W + (k * ?W + j)"
        by (simp add: k add_mult_distrib)
      have "Suc k * ?W \<le> rows src * ?W" using kr by (intro mult_le_mono1) simp
      then have lt: "k * ?W + j < length (concat ?vs)" using jW lc by simp
      have "(?A @ concat ?vs @ ?B) ! (i * ?W + j) = (concat ?vs @ ?B) ! (k * ?W + j)"
        unfolding idx by (simp only: skipA)
      also have "\<dots> = concat ?vs ! (k * ?W + j)" using lt by (simp add: nth_append)
      also have "\<dots> = ?vs ! k ! j"
        using concat_nth_uniform [OF u, of k j] kr jW by simp
      also have "\<dots> = ?row k ! j" using kr by simp
      also have "\<dots> = v"
        using side(3) u0 kr jW by (auto simp: nth_append)
      finally show ?thesis by (simp add: dst)
    qed
  qed
  show "\<forall>i j. i < rows src \<and> j < cols src
           \<longrightarrow> data dst ! ((nat t + i) * cols dst + (nat l + j))
               = take (cols src) (drop (i * cols src) (data src)) ! j"
  proof (intro allI impI, elim conjE)
    fix i j assume i: "i < rows src" and j: "j < cols src"
    have jW: "nat l + j < ?W" using j by simp
    have idx: "(nat t + i) * ?W + (nat l + j) = nat t * ?W + (i * ?W + (nat l + j))"
      by (simp add: add_mult_distrib)
    have "Suc i * ?W \<le> rows src * ?W" using i by (intro mult_le_mono1) simp
    then have lt: "i * ?W + (nat l + j) < length (concat ?vs)" using jW lc by simp
    have "(?A @ concat ?vs @ ?B) ! ((nat t + i) * ?W + (nat l + j)) = (concat ?vs @ ?B) ! (i * ?W + (nat l + j))"
      unfolding idx by (simp only: skipA)
    also have "\<dots> = concat ?vs ! (i * ?W + (nat l + j))" using lt by (simp add: nth_append)
    also have "\<dots> = ?vs ! i ! (nat l + j)"
      using concat_nth_uniform [OF u, of i "nat l + j"] i jW by simp
    also have "\<dots> = ?row i ! (nat l + j)" using i by simp
    also have "\<dots> = take (cols src) (drop (i * cols src) (data src)) ! j"
      using u0 i j by (simp add: nth_append)
    finally show "data dst ! ((nat t + i) * cols dst + (nat l + j))
               = take (cols src) (drop (i * cols src) (data src)) ! j"
      by (simp add: dst)
  qed
qed


lemma ProcessFrame_loop_rejects:
  assumes "\<forall>r\<in>set boundingRects. \<exists>boundRect img v.
             ProcessFrame_region frame roi r = Inr (boundRect, img) \<and> detector img = Inr v \<and> v \<le> 0"
  shows "ProcessFrame_loop classifier detector frame roi boundingRects st = Inr st"
  using assms
proof (induction boundingRects)
  case Nil
  then show ?case by simp
next
  case (Cons r boundingRects)
  then obtain boundRect img v where
    "ProcessFrame_region frame roi r = Inr (boundRect, img)" "detector img = Inr v" "v \<le> 0"
    by auto
  with Cons show ?case by simp
qed

section \<open>Frame processing: results\<close>

text \<open>
  C1. If every candidate region of the frame has an image and the detector returns a
  value that is not positive on it, then processing the frame ends with no detection and
  without a single call of the digit classifier, whatever the digit classifier is.
\<close>

theorem detector_gates_classifier:
  assumes "\<forall>r\<in>set boundingRects. \<exists>boundRect img v.
             ProcessFrame_region frame (ProcessFrame_roi frame) r = Inr (boundRect, img)
             \<and> detector img = Inr v \<and> v \<le> 0"
  shows "ProcessFrame classifier detector frame boundingRects
     = Inr \<lparr>detections = [], classifier_calls = []\<rparr>"
  using assms by (simp add: ProcessFrame_def ProcessFrame_loop_rejects)

theorem detector_gates_classifier_witness:
  "ProcessFrame
     (HogSvm_Predict (\<lambda>src dsize k. 0) (\<lambda>img k. 0) (\<lambda>m v. 7) (HogSvm_new ()))
     (HogSvm_Predict (\<lambda>src dsize k. 0) (\<lambda>img k. 0) (\<lambda>m v. 0) (HogSvm_new ()))
     \<lparr>rows = 8, cols = 8, data = map of_nat [0..<64]\<rparr>
     [\<lparr>x = 0, y = 0, width = 5, height = 2\<rparr>, \<lparr>x = 2, y = 3, width = 1, height = 3\<rparr>]
   = Inr \<lparr>detections = [], classifier_calls = []\<rparr>"
proof -
  let ?frame = "\<lparr>rows = 8, cols = 8, data = map of_nat [0..<64] :: byte list\<rparr>"
  let ?detector = "HogSvm_Predict (\<lambda>src dsize k. 0) (\<lambda>img k. 0) (\<lambda>m v. 0) (HogSvm_new ())"
  have roi: "ProcessFrame_roi ?frame = \<lparr>x = 1, y = 1, width = 6, height = 6\<rparr>"
    by code_simp
  have r1: "ProcessFrame_region ?frame \<lparr>x = 1, y = 1, width = 6, height = 6\<rparr> \<lparr>x = 0, y = 0, width = 5, height = 2\<rparr>
     = Inr (\<lparr>x = 1, y = 1, width = 5, height = 2\<rparr>,
            \<lparr>rows = 2, cols = 7, data = [0, 9, 10, 11, 12, 13, 0, 0, 17, 18, 19, 20, 21, 0]\<rparr>)"
    by code_simp
  have r2: "ProcessFrame_region ?frame \<lparr>x = 1, y = 1, width = 6, height = 6\<rparr> \<lparr>x = 2, y = 3, width = 1, height = 3\<rparr>
     = Inr (\<lparr>x = 3, y = 4, width = 1, height = 3\<rparr>,
            \<lparr>rows = 3, cols = 1, data = [35, 43, 51]\<rparr>)"
    by code_simp
  have d: "?detector img = Inr 0" if "0 < rows img" "0 < cols img" for img
    using that by (simp add: HogSvm_Predict_row)
  have "\<forall>r\<in>set [\<lparr>x = 0, y = 0, width = 5, height = 2\<rparr>, \<lparr>x = 2, y = 3, width = 1, height = 3\<rparr>].
          \<exists>boundRect img v. ProcessFrame_region ?frame (ProcessFrame_roi ?frame) r = Inr (boundRect, img)
             \<and> ?detector img = Inr v \<and> v \<le> 0"
    by (simp add: roi r1 r2 d)
  from detector_gates_classifier [OF this] show ?thesis .
qed


text \<open>
  C4 (as amended). For a region with bounding box of width \<open>w\<close> and height \<open>h\<close> (in a
  frame whose buffer has \<open>rows * cols\<close> pixels) the padded image has width
  \<open>w + 2 * trunc(0.2 * w)\<close> and height \<open>h + 2 * trunc(0.2 * h)\<close>, the truncation being
  \<open>w div 5\<close> and \<open>h div 5\<close>; every pixel of the border is 0 and the inner \<open>w\<close> by \<open>h\<close>
  pixels are those of the frame inside the bounding box.
\<close>

theorem padded_region_size:
  assumes reg: "ProcessFrame_region frame roi r = Inr (boundRect, img)"
    and wf: "length (data frame) = rows frame * cols frame"
  shows "Rect.width boundRect = Rect.width r \<and> Rect.height boundRect = Rect.height r
    \<and> int (cols img) = Rect.width r + 2 * static_cast_int (real_of_int (Rect.width r) * 0.2)
    \<and> int (rows img) = Rect.height r + 2 * static_cast_int (real_of_int (Rect.height r) * 0.2)
    \<and> static_cast_int (real_of_int (Rect.width r) * 0.2) = Rect.width r div 5
    \<and> static_cast_int (real_of_int (Rect.height r) * 0.2) = Rect.height r div 5
    \<and> length (data img) = rows img * cols img
    \<and> (\<forall>i j. i < rows img \<and> j < cols img
           \<and> (i < nat (Rect.height r div 5) \<or> nat (Rect.height r div 5) + nat (Rect.height r) \<le> i
              \<or> j < nat (Rect.width r div 5) \<or> nat (Rect.width r div 5) + nat (Rect.width r) \<le> j)
         \<longrightarrow> data img ! (i * cols img + j) = 0)
    \<and> (\<forall>i j. i < nat (Rect.height r) \<and> j < nat (Rect.width r)
         \<longrightarrow> data img ! ((nat (Rect.height r div 5) + i) * cols img + (nat (Rect.width r div 5) + j))
             = data frame ! ((nat (y boundRect) + i) * cols frame + (nat (x boundRect) + j)))"
proof -
  let ?b = "\<lparr>x = x r + x roi, y = y r + y roi, width = Rect.width r, height = Rect.height r\<rparr>"
  let ?w = "Rect.width r" and ?h = "Rect.height r"
  from reg obtain crop where crop: "Mat_roi frame ?b = Inr crop"
    and b: "boundRect = r\<lparr>x := x r + x roi, y := y r + y roi\<rparr>"
    and pad: "copyMakeBorder crop (static_cast_int (real_of_int ?h * 0.2)) (static_cast_int (real_of_int ?h * 0.2))
               (static_cast_int (real_of_int ?w * 0.2)) (static_cast_int (real_of_int ?w * 0.2)) 0 = Inr img"
    by (auto simp: ProcessFrame_region_def Let_def split: sum.splits)
  note c = Mat_roi_shape [OF crop wf]
  have h0: "0 \<le> ?h" and w0: "0 \<le> ?w" using c(3,4) by simp_all
  have hp: "static_cast_int (real_of_int ?h * 0.2) = ?h div 5"
    and wp: "static_cast_int (real_of_int ?w * 0.2) = ?w div 5"
    using h0 w0 by (simp_all only: static_cast_int_fifth)
  have hp0: "0 \<le> ?h div 5" and wp0: "0 \<le> ?w div 5" using h0 w0 by simp_all
  note p = copyMakeBorder_shape [OF pad [unfolded hp wp] c(7)]
  have cr: "rows crop = nat ?h" and cc: "cols crop = nat ?w" using c(1,2) by simp_all
  have "Rect.width boundRect = ?w" and "Rect.height boundRect = ?h" by (simp_all add: b)
  moreover have "int (cols img) = ?w + 2 * (?w div 5)" using p(2) cc w0 wp0 by simp
  moreover have "int (rows img) = ?h + 2 * (?h div 5)" using p(1) cr h0 hp0 by simp
  moreover note p(3)
  moreover have "\<forall>i j. i < rows img \<and> j < cols img
           \<and> (i < nat (?h div 5) \<or> nat (?h div 5) + nat ?h \<le> i
              \<or> j < nat (?w div 5) \<or> nat (?w div 5) + nat ?w \<le> j)
         \<longrightarrow> data img ! (i * cols img + j) = 0"
    using p(4) by (simp only: cr cc)
  moreover have "\<forall>i j. i < nat ?h \<and> j < nat ?w
         \<longrightarrow> data img ! ((nat (?h div 5) + i) * cols img + (nat (?w div 5) + j))
             = data frame ! ((nat (y boundRect) + i) * cols frame + (nat (x boundRect) + j))"
  proof (intro allI impI, elim conjE)
    fix i j assume i: "i < nat ?h" and j: "j < nat ?w"
    have 1: "data img ! ((nat (?h div 5) + i) * cols img + (nat (?w div 5) + j))
        = take (cols crop) (drop (i * cols crop) (data crop)) ! j"
      using p(5) i j by (simp only: cr cc)
    have i': "i < rows crop" using i cr by simp
    have 2: "take (cols crop) (drop (i * cols crop) (data crop))
        = take (nat ?w) (drop ((nat (y ?b) + i) * cols frame + nat (x ?b)) (data frame))"
      using c(6) [rule_format, OF i'] by simp
    have "length (take (cols crop) (drop (i * cols crop) (data crop))) = cols crop"
      by (rule c(7) [rule_format, OF i'])
    then have "length (take (nat ?w) (drop ((nat (y ?b) + i) * cols frame + nat (x ?b)) (data frame))) = cols crop"
      by (simp only: 2)
    then have 3: "length (take (nat ?w) (drop ((nat (y ?b) + i) * cols frame + nat (x ?b)) (data frame))) = nat ?w"
      by (simp only: cc)
    then have "(nat (y ?b) + i) * cols frame + nat (x ?b) + j < length (data frame)"
      using j by simp
    then have "take (nat ?w) (drop ((nat (y ?b) + i) * cols frame + nat (x ?b)) (data frame)) ! j
        = data frame ! ((nat (y ?b) + i) * cols frame + (nat (x ?b) + j))"
      using j by (simp add: add.assoc)
    with 1 2 show "data img ! ((nat (?h div 5) + i) * cols img + (nat (?w div 5) + j))
             = data frame ! ((nat (y boundRect) + i) * cols frame + (nat (x boundRect) + j))"
      by (simp add: b)
  qed
  ultimately show ?thesis using hp wp by simp
qed

theorem padded_region_size_witness:
  "ProcessFrame_region \<lparr>rows = 8, cols = 8, data = map of_nat [0..<64]\<rparr>
       \<lparr>x = 1, y = 1, width = 6, height = 6\<rparr> \<lparr>x = 0, y = 0, width = 5, height = 2\<rparr>
     = Inr (\<lparr>x = 1, y = 1, width = 5, height = 2\<rparr>,
            \<lparr>rows = 2, cols = 7, data = [0, 9, 10, 11, 12, 13, 0, 0, 17, 18, 19, 20, 21, 0]\<rparr>)
   \<and> int (cols \<lparr>rows = 2, cols = 7, data = [0, 9, 10, 11, 12, 13, 0, 0, 17, 18, 19, 20, 21, 0 :: byte]\<rparr>)
       = 5 + 2 * static_cast_int (real_of_int 5 * 0.2)
   \<and> int (rows \<lparr>rows = 2, cols = 7, data = [0, 9, 10, 11, 12, 13, 0, 0, 17, 18, 19, 20, 21, 0 :: byte]\<rparr>)
       = 2 + 2 * static_cast_int (real_of_int 2 * 0.2)"
proof -
  let ?frame = "\<lparr>rows = 8, cols = 8, data = map of_nat [0..<64] :: byte list\<rparr>"
  let ?img = "\<lparr>rows = 2, cols = 7, data = [0, 9, 10, 11, 12, 13, 0, 0, 17, 18, 19, 20, 21, 0 :: byte]\<rparr>"
  have 1: "ProcessFrame_region ?frame \<lparr>x = 1, y = 1, width = 6, height = 6\<rparr> \<lparr>x = 0, y = 0, width = 5, height = 2\<rparr>
     = Inr (\<lparr>x = 1, y = 1, width = 5, height = 2\<rparr>, ?img)"
    by code_simp
  have 2: "length (data ?frame) = rows ?frame * cols ?frame" by simp
  from padded_region_size [OF 1 2] 1 show ?thesis by simp
qed

text \<open>
  The claim as stated fails for a bounding box of 3 by 3 pixels: rounding 0.6 gives a
  border of one pixel and a width of 5, the program truncates to no border and the
  padded image is 3 pixels wide.
\<close>

theorem padded_region_size_counterexample:
  "ProcessFrame_region \<lparr>rows = 4, cols = 4, data = replicate 16 255\<rparr>
       (ProcessFrame_roi \<lparr>rows = 4, cols = 4, data = replicate 16 255\<rparr>)
       \<lparr>x = 0, y = 0, width = 3, height = 3\<rparr>
     = Inr (\<lparr>x = 0, y = 0, width = 3, height = 3\<rparr>,
            \<lparr>rows = 3, cols = 3, data = replicate 9 255\<rparr>)
   \<and> (3::int) + 2 * round (0.2 * 3 :: real) = 5
   \<and> int (cols \<lparr>rows = 3, cols = 3, data = replicate 9 (255::byte)\<rparr>) \<noteq> 3 + 2 * round (0.2 * 3 :: real)"
  by code_simp

section \<open>Persistence: results\<close>

text \<open>
  C8. A load from a path that does not exist returns \<open>false\<close>, whatever the library's
  parser would do, and the object, with the model it held, is returned as it was.
\<close>

theorem Load_missing_file:
  assumes "fs filename = None"
  shows "Svm_Load StatModel_load fs filename s = Inr (False, s)"
  using assms by (simp add: Svm_Load_def)

theorem Load_missing_file_witness:
  "Map.empty ''mnistSvm.xml'' = (None :: byte list option)
   \<and> Svm_Load (\<lambda>c. Inr (length c)) Map.empty ''mnistSvm.xml'' \<lparr>m_svm = (7::nat)\<rparr>
       = Inr (False, \<lparr>m_svm = 7\<rparr>)"
  using Load_missing_file [of Map.empty "''mnistSvm.xml''" "\<lambda>c. Inr (length c)" "\<lparr>m_svm = (7::nat)\<rparr>"]
  by simp

text \<open>
  C10 (as amended). With an empty file name, save returns \<open>false\<close>; the library's writer
  is not called (the result does not depend on it), so the file system and the object are
  as before. With a non-empty file name the writer is called on the stored model; save
  returns \<open>true\<close> with the written file system when that call returns, an exception of
  the writer is the outcome of save when it raises, and save never returns \<open>false\<close>.
\<close>

theorem Save_by_filename:
  "(filename = [] \<longrightarrow> Svm_Save svm_save s filename fs = Inr (False, s, fs))
   \<and> (filename \<noteq> [] \<longrightarrow>
        (\<forall>fs'. svm_save (m_svm s) filename fs = Inr fs'
           \<longrightarrow> Svm_Save svm_save s filename fs = Inr (True, s, fs'))
        \<and> (\<forall>e. svm_save (m_svm s) filename fs = Inl e
           \<longrightarrow> Svm_Save svm_save s filename fs = Inl e)
        \<and> (\<forall>t g. Svm_Save svm_save s filename fs \<noteq> Inr (False, t, g)))"
  by (auto simp: Svm_Save_def split: sum.splits)

theorem Save_by_filename_witness:
  "Svm_Save (\<lambda>m f g. Inr (g(f \<mapsto> [m]))) \<lparr>m_svm = (5::byte)\<rparr> [] Map.empty
     = Inr (False, \<lparr>m_svm = 5\<rparr>, Map.empty)
   \<and> Svm_Save (\<lambda>m f g. Inr (g(f \<mapsto> [m]))) \<lparr>m_svm = (5::byte)\<rparr> ''mnistSvm.xml'' Map.empty
     = Inr (True, \<lparr>m_svm = 5\<rparr>, [''mnistSvm.xml'' \<mapsto> [5]])"
  using Save_by_filename [of "[]" "\<lambda>m f g. Inr (g(f \<mapsto> [m]))" "\<lparr>m_svm = (5::byte)\<rparr>" Map.empty]
    Save_by_filename [of "''mnistSvm.xml''" "\<lambda>m f g. Inr (g(f \<mapsto> [m]))" "\<lparr>m_svm = (5::byte)\<rparr>" Map.empty]
  by simp

text \<open>
  The claim as stated fails for a model the library's writer refuses (OpenCV raises on
  saving a model that was never trained): with a non-empty file name save then ends with
  the exception and reports no success.
\<close>

theorem Save_by_filename_counterexample:
  "Svm_Save (\<lambda>m f g. if m = 0 then Inl CvException else Inr (g(f \<mapsto> [m])))
       \<lparr>m_svm = (0::byte)\<rparr> ''mnistSvm.xml'' Map.empty
     = Inl CvException
   \<and> \<not> (\<exists>fs'. Svm_Save (\<lambda>m f g. if m = 0 then Inl CvException else Inr (g(f \<mapsto> [m])))
               \<lparr>m_svm = (0::byte)\<rparr> ''mnistSvm.xml'' Map.empty
             = Inr (True, \<lparr>m_svm = 0\<rparr>, fs'))"
  by (simp add: Svm_Save_def)

end
